theory Spec2Isabelle
  imports Main "HOL-Library.Sublist" "HOL-Library.AList"
begin

section \<open>Errors raised by the hosting routes\<close>

text \<open>
  The JavaScript throws plain \<open>Error\<close> objects that differ only in their message; the
  route's \<open>catch\<close> block answers 500 with that message. Each throw site of the modelled
  code is one constructor:
  \<^item> \<open>NoPortAvailable\<close>: "Aucun port disponible", thrown by \<open>allocatePort\<close>;
  \<^item> \<open>ProjectExists\<close>: "Le projet ... existe deja", thrown by \<open>createProjectDirectory\<close>;
  \<^item> \<open>ExtractionFailed\<close>: whatever AdmZip throws on an archive it cannot read;
  \<^item> \<open>InvalidStructure\<close>: "Structure invalide: les dossiers "frontend" et "backend" sont
    requis";
  \<^item> \<open>FrontendManifest\<close>, \<open>BackendManifest\<close>: "package.json manquant ou invalide dans le
    dossier frontend" (backend);
  \<^item> \<open>MoveFailed\<close>, \<open>EnvWriteFailed\<close>: what \<open>fs.rename\<close> and \<open>fs.writeFile\<close> or
    \<open>fs.appendFile\<close> throw;
  \<^item> \<open>BackendDepsFailed\<close>, \<open>FrontendDepsFailed\<close>: "Erreur lors de l'installation des
    dependances backend" (frontend);
  \<^item> \<open>BackendStartFailed\<close>: "Erreur lors du demarrage du backend: ..." with the message
    of the rejected start;
  \<^item> \<open>DbFailed\<close>: what \<open>insertOne\<close> throws.
\<close>

datatype error =
    NoPortAvailable
  | ProjectExists string
  | ExtractionFailed
  | InvalidStructure
  | FrontendManifest
  | BackendManifest
  | MoveFailed
  | EnvWriteFailed
  | BackendDepsFailed
  | FrontendDepsFailed
  | BackendStartFailed string
  | DbFailed

section \<open>PortManager (utils/portManager.js)\<close>

text \<open>
  The class keeps a \<open>Set\<close> of held ports and the two bounds of the range. The constructor
  sets the bounds to 3001 and 4000; they are fields, so the model keeps them as fields.
  The \<open>userId\<close> and \<open>projectName\<close> arguments of both methods only reach the logger and
  are left out.
\<close>

record portManager =
  usedPorts :: "nat set"
  minPort :: nat
  maxPort :: nat

definition newPortManager :: portManager where
  "newPortManager = \<lparr>usedPorts = {}, minPort = 3001, maxPort = 4000\<rparr>"

text \<open>The \<open>for\<close> loop of \<open>allocatePort\<close>: \<open>port\<close> runs upwards from \<open>minPort\<close> while
  \<open>port <= maxPort\<close> and stops at the first port the set does not hold.\<close>

function scanPorts :: "nat set \<Rightarrow> nat \<Rightarrow> nat \<Rightarrow> nat option" where
  "scanPorts used port hi =
     (if port \<le> hi
      then (if port \<notin> used then Some port else scanPorts used (port + 1) hi)
      else None)"
  by pat_completeness auto
termination
  by (relation "measure (\<lambda>(used, port, hi). Suc hi - port)") auto

declare scanPorts.simps [simp del]

definition allocatePort :: "portManager \<Rightarrow> error + (nat \<times> portManager)" where
  "allocatePort pm =
     (case scanPorts (usedPorts pm) (minPort pm) (maxPort pm) of
        Some port \<Rightarrow> Inr (port, pm\<lparr>usedPorts := insert port (usedPorts pm)\<rparr>)
      | None \<Rightarrow> Inl NoPortAvailable)"

definition releasePort :: "nat \<Rightarrow> portManager \<Rightarrow> portManager" where
  "releasePort port pm =
     (if port \<in> usedPorts pm then pm\<lparr>usedPorts := usedPorts pm - {port}\<rparr> else pm)"

definition isPortInUse :: "nat \<Rightarrow> portManager \<Rightarrow> bool" where
  "isPortInUse port pm = (port \<in> usedPorts pm)"

text \<open>A caller that allocates \<open>n\<close> times in a row with no release in between; it records
  every outcome, the port or the error.\<close>

fun allocateMany :: "nat \<Rightarrow> portManager \<Rightarrow> (error + nat) list \<times> portManager" where
  "allocateMany 0 pm = ([], pm)"
| "allocateMany (Suc n) pm =
     (case allocatePort pm of
        Inl e \<Rightarrow> (case allocateMany n pm of (rs, pm') \<Rightarrow> (Inl e # rs, pm'))
      | Inr (port, pm1) \<Rightarrow> (case allocateMany n pm1 of (rs, pm') \<Rightarrow> (Inr port # rs, pm')))"

text \<open>The ports of the range that the allocator does not hold, in ascending order.\<close>

definition freePorts :: "portManager \<Rightarrow> nat list" where
  "freePorts pm = filter (\<lambda>p. p \<notin> usedPorts pm) [minPort pm ..< Suc (maxPort pm)]"

section \<open>Strings\<close>

text \<open>
  A JavaScript string is modelled as the \<open>string\<close> (list of 8-bit \<open>char\<close>) of its UTF-8
  bytes, so an ASCII character is one \<open>char\<close> and any other code point is a sequence of
  two to four bytes above \<open>0x7F\<close>. The string methods the routes call are written out:
  \<open>includes\<close> as the contiguous-sublist test, \<open>startsWith\<close> as the prefix test,
  \<open>replace\<close> with a string pattern (first occurrence only), the decimal rendering of a
  number inside a template literal, \<open>toLowerCase\<close> and \<open>trim\<close>.

  \<open>toLowerCase\<close>: the letters A to Z become a to z, and the Kelvin sign U+212A (bytes
  \<open>E2 84 AA\<close>) becomes \<open>k\<close>; it is the only code point outside ASCII whose lower case
  is an ASCII character. Every other code point outside ASCII is left as it is, where
  JavaScript may map it to other code points outside ASCII; the routes compare the
  result only with the ASCII words \<open>frontend\<close> and \<open>backend\<close>, and those comparisons
  come out the same.

  \<open>trim\<close> removes, at both ends, the code points that ECMAScript calls white space and
  line terminators: U+0009 to U+000D, U+0020, U+00A0, U+1680, U+2000 to U+200A, U+2028,
  U+2029, U+202F, U+205F, U+3000 and U+FEFF, each listed in \<open>whiteSpace\<close> by its UTF-8
  bytes.
\<close>

definition lowerChar :: "char \<Rightarrow> char" where
  "lowerChar c =
     (case map_of (zip ''ABCDEFGHIJKLMNOPQRSTUVWXYZ'' ''abcdefghijklmnopqrstuvwxyz'') c of
        Some d \<Rightarrow> d
      | None \<Rightarrow> c)"

fun toLowerCase :: "string \<Rightarrow> string" where
  "toLowerCase (a # b # c # s) =
     (if a = CHR 0xE2 \<and> b = CHR 0x84 \<and> c = CHR 0xAA then CHR ''k'' # toLowerCase s
      else lowerChar a # toLowerCase (b # c # s))"
| "toLowerCase (a # s) = lowerChar a # toLowerCase s"
| "toLowerCase [] = []"

definition whiteSpace :: "string list" where
  "whiteSpace =
     [[CHR 0x09], [CHR 0x0A], [CHR 0x0B], [CHR 0x0C], [CHR 0x0D], [CHR 0x20],
      [CHR 0xC2, CHR 0xA0],
      [CHR 0xE1, CHR 0x9A, CHR 0x80],
      [CHR 0xE2, CHR 0x80, CHR 0x80], [CHR 0xE2, CHR 0x80, CHR 0x81],
      [CHR 0xE2, CHR 0x80, CHR 0x82], [CHR 0xE2, CHR 0x80, CHR 0x83],
      [CHR 0xE2, CHR 0x80, CHR 0x84], [CHR 0xE2, CHR 0x80, CHR 0x85],
      [CHR 0xE2, CHR 0x80, CHR 0x86], [CHR 0xE2, CHR 0x80, CHR 0x87],
      [CHR 0xE2, CHR 0x80, CHR 0x88], [CHR 0xE2, CHR 0x80, CHR 0x89],
      [CHR 0xE2, CHR 0x80, CHR 0x8A],
      [CHR 0xE2, CHR 0x80, CHR 0xA8], [CHR 0xE2, CHR 0x80, CHR 0xA9],
      [CHR 0xE2, CHR 0x80, CHR 0xAF],
      [CHR 0xE2, CHR 0x81, CHR 0x9F],
      [CHR 0xE3, CHR 0x80, CHR 0x80],
      [CHR 0xEF, CHR 0xBB, CHR 0xBF]]"

text \<open>\<open>trimStart ws\<close> drops from the front of the string, as long as there is one, a
  member of \<open>ws\<close>; \<open>trim\<close> does so at the front and, on the reversed string with the
  reversed byte sequences, at the end.\<close>

function trimStart :: "string list \<Rightarrow> string \<Rightarrow> string" where
  "trimStart ws s =
     (case find (\<lambda>w. w \<noteq> [] \<and> prefix w s) ws of
        Some w \<Rightarrow> trimStart ws (drop (length w) s)
      | None \<Rightarrow> s)"
  by pat_completeness auto
termination
  by (relation "measure (\<lambda>(ws, s). length s)") (auto simp: find_Some_iff prefix_def)

declare trimStart.simps [simp del]

definition trim :: "string \<Rightarrow> string" where
  "trim s = rev (trimStart (map rev whiteSpace) (rev (trimStart whiteSpace s)))"

definition str_includes :: "string \<Rightarrow> string \<Rightarrow> bool" where
  "str_includes s sub = sublist sub s"

definition startsWith :: "string \<Rightarrow> string \<Rightarrow> bool" where
  "startsWith s p = prefix p s"

fun replaceFirst :: "string \<Rightarrow> string \<Rightarrow> string \<Rightarrow> string" where
  "replaceFirst pat rep [] = (if pat = [] then rep else [])"
| "replaceFirst pat rep (c # cs) =
     (if prefix pat (c # cs) then rep @ drop (length pat) (c # cs)
      else c # replaceFirst pat rep cs)"

definition digitChar :: "nat \<Rightarrow> char" where
  "digitChar d = ''0123456789'' ! d"

function toString :: "nat \<Rightarrow> string" where
  "toString n = (if n < 10 then [digitChar n] else toString (n div 10) @ [digitChar (n mod 10)])"
  by pat_completeness auto
termination
  by (relation "measure id") auto

declare toString.simps [simp del]

section \<open>Extracted archives as directory trees\<close>

text \<open>
  What \<open>fs.readdir(dir, {withFileTypes: true})\<close> shows of an extracted archive: entries in
  directory order, each a file (name and text content) or a directory (name and its own
  entries). A path is the list of names below the directory the search starts from, so
  \<open>path.join(root, entry.name)\<close> is \<open>root @ [name]\<close>.
\<close>

datatype entry = File string string | Dir string "entry list"

type_synonym path = "string list"

text \<open>
  \<open>findDirs\<close> of server/routes/hosting.js. \<open>findLoop\<close> is its \<open>for\<close> loop over the
  entries with the two variables \<open>frontend\<close> and \<open>backend\<close>; a directory whose lower-cased
  name matches sets the variable, and while one of the two is still unset the directory
  is searched recursively, the result filling only what is unset
  (\<open>frontend = frontend || sub.frontend\<close>).
\<close>

definition orElse :: "'a option \<Rightarrow> 'a option \<Rightarrow> 'a option" where
  "orElse a b = (case a of Some x \<Rightarrow> Some x | None \<Rightarrow> b)"

fun findDirs :: "path \<Rightarrow> entry list \<Rightarrow> path option \<times> path option"
  and findLoop :: "path \<Rightarrow> entry list \<Rightarrow> path option \<times> path option \<Rightarrow> path option \<times> path option"
where
  "findDirs root entries = findLoop root entries (None, None)"
| "findLoop root [] acc = acc"
| "findLoop root (File name content # es) acc = findLoop root es acc"
| "findLoop root (Dir name sub # es) acc =
     (let fullPath = root @ [name];
          frontend = (if toLowerCase name = ''frontend'' then Some fullPath else fst acc);
          backend = (if toLowerCase name = ''backend'' then Some fullPath else snd acc)
      in if frontend = None \<or> backend = None
         then findLoop root es
                (orElse frontend (fst (findDirs fullPath sub)),
                 orElse backend (snd (findDirs fullPath sub)))
         else findLoop root es (frontend, backend))"

text \<open>
  The structure check of the process-supervising variant of the route (and of the first
  version of the route): one pass over the top-level entries, no recursion; a directory
  is tested for "frontend" first and for "backend" otherwise.
\<close>

fun topLevelDirs :: "path \<Rightarrow> entry list \<Rightarrow> path option \<times> path option \<Rightarrow> path option \<times> path option" where
  "topLevelDirs root [] acc = acc"
| "topLevelDirs root (File name content # es) acc = topLevelDirs root es acc"
| "topLevelDirs root (Dir name sub # es) acc =
     (if toLowerCase name = ''frontend'' then topLevelDirs root es (Some (root @ [name]), snd acc)
      else if toLowerCase name = ''backend'' then topLevelDirs root es (fst acc, Some (root @ [name]))
      else topLevelDirs root es acc)"

text \<open>Every directory of a tree, by its path: what "a directory at any nesting depth" means.\<close>

fun allDirs :: "path \<Rightarrow> entry list \<Rightarrow> path list"
  and entryDirs :: "path \<Rightarrow> entry \<Rightarrow> path list"
where
  "allDirs root [] = []"
| "allDirs root (e # es) = entryDirs root e @ allDirs root es"
| "entryDirs root (File name content) = []"
| "entryDirs root (Dir name sub) = (root @ [name]) # allDirs (root @ [name]) sub"

definition named :: "string \<Rightarrow> path \<Rightarrow> bool" where
  "named nm p = (p \<noteq> [] \<and> toLowerCase (last p) = nm)"

text \<open>
  A path \<open>p\<close> is a shallowest match for a name below \<open>root\<close>: a directory of the tree whose
  lower-cased name is the name, none of whose ancestor directories below \<open>root\<close> has that name.
\<close>

definition shallowMatch :: "string \<Rightarrow> path \<Rightarrow> entry list \<Rightarrow> path \<Rightarrow> bool" where
  "shallowMatch nm root es p =
     (p \<in> set (allDirs root es) \<and> named nm p \<and>
      (\<forall>q. strict_prefix root q \<and> strict_prefix q p \<longrightarrow> \<not> named nm q))"

section \<open>Files of a directory\<close>

text \<open>
  \<open>fs.readFile\<close> and \<open>fs.writeFile\<close> on a path directly below a directory whose entries
  are given. Reading fails (\<open>None\<close>) when no file has the name; so does reading or writing
  where a directory has it. \<open>lookupDir\<close>, \<open>subtreeAt\<close> and \<open>removeAt\<close> follow a path of
  directory names; they are what \<open>fs.rename\<close> needs to move a directory out of the
  extracted tree.
\<close>

fun readFile :: "string \<Rightarrow> entry list \<Rightarrow> string option" where
  "readFile nm [] = None"
| "readFile nm (File n c # es) = (if n = nm then Some c else readFile nm es)"
| "readFile nm (Dir n sub # es) = (if n = nm then None else readFile nm es)"

fun writeFile :: "string \<Rightarrow> string \<Rightarrow> entry list \<Rightarrow> entry list option" where
  "writeFile nm c [] = Some [File nm c]"
| "writeFile nm c (File n old # es) =
     (if n = nm then Some (File n c # es) else map_option (Cons (File n old)) (writeFile nm c es))"
| "writeFile nm c (Dir n sub # es) =
     (if n = nm then None else map_option (Cons (Dir n sub)) (writeFile nm c es))"

fun lookupDir :: "string \<Rightarrow> entry list \<Rightarrow> entry list option" where
  "lookupDir nm [] = None"
| "lookupDir nm (File n c # es) = lookupDir nm es"
| "lookupDir nm (Dir n sub # es) = (if n = nm then Some sub else lookupDir nm es)"

fun subtreeAt :: "path \<Rightarrow> entry list \<Rightarrow> entry list option" where
  "subtreeAt [] es = Some es"
| "subtreeAt (n # ns) es = (case lookupDir n es of Some sub \<Rightarrow> subtreeAt ns sub | None \<Rightarrow> None)"

fun removeAt :: "path \<Rightarrow> entry list \<Rightarrow> entry list" where
  "removeAt p [] = []"
| "removeAt p (File n c # es) = File n c # removeAt p es"
| "removeAt p (Dir n sub # es) =
     (case p of
        [] \<Rightarrow> Dir n sub # es
      | m # ms \<Rightarrow>
          if n = m then (if ms = [] then es else Dir n (removeAt ms sub) # es)
          else Dir n sub # removeAt p es)"

section \<open>Environment synchronisation\<close>

text \<open>
  The block "Verifier la configuration du frontend (.env)" of the deployment route, as
  a function from the port and the content of \<open>frontend/.env\<close> (\<open>None\<close> when the file
  cannot be read) to the content afterwards.

  \<open>syncEnvAppend\<close> is the block of server/routes/hosting.js: the two lines are filtered,
  keeping a line when the text before its \<open>=\<close> does not occur in the content read, and the
  lines kept are appended with \<open>fs.appendFile\<close> as \<open>envVars.join("\n") + "\n"\<close>.

  \<open>syncEnvWrite\<close> is the block of the process-supervising variant of the route: when the
  content holds either key name the file is left alone, otherwise \<open>fs.writeFile\<close> replaces
  it by the two lines.
\<close>

definition envLine :: "string \<Rightarrow> nat \<Rightarrow> string" where
  "envLine key port = key @ ''=http://localhost:'' @ toString port"

definition envVars :: "nat \<Rightarrow> string list" where
  "envVars port = [envLine ''VITE_API_URL'' port, envLine ''BACKEND_ADRESSE'' port]"

definition keyOf :: "string \<Rightarrow> string" where
  "keyOf v = takeWhile (\<lambda>c. c \<noteq> CHR ''='') v"

fun joinLines :: "string list \<Rightarrow> string" where
  "joinLines [] = []"
| "joinLines [v] = v"
| "joinLines (v # w # vs) = v @ [CHR 0x0A] @ joinLines (w # vs)"

definition missingVars :: "nat \<Rightarrow> string option \<Rightarrow> string list" where
  "missingVars port content =
     (case content of
        Some envContent \<Rightarrow> filter (\<lambda>v. \<not> str_includes envContent (keyOf v)) (envVars port)
      | None \<Rightarrow> envVars port)"

definition syncEnvAppend :: "nat \<Rightarrow> string option \<Rightarrow> string option" where
  "syncEnvAppend port content =
     (if missingVars port content \<noteq> []
      then Some ((case content of Some envContent \<Rightarrow> envContent | None \<Rightarrow> []) @
                 joinLines (missingVars port content) @ [CHR 0x0A])
      else content)"

definition needsEnvUpdate :: "string option \<Rightarrow> bool" where
  "needsEnvUpdate content =
     (case content of
        Some envContent \<Rightarrow>
          \<not> (str_includes envContent ''BACKEND_ADRESSE'' \<or> str_includes envContent ''VITE_API_URL'')
      | None \<Rightarrow> True)"

definition syncEnvWrite :: "nat \<Rightarrow> string option \<Rightarrow> string option" where
  "syncEnvWrite port content =
     (if needsEnvUpdate content
      then Some (''VITE_API_URL=http://localhost:'' @ toString port @ [CHR 0x0A] @
                 ''BACKEND_ADRESSE=http://localhost:'' @ toString port @ [CHR 0x0A])
      else content)"

text \<open>
  How a \<open>.env\<close> file is read: one \<open>KEY=VALUE\<close> pair per line, the key ending at the first
  \<open>=\<close>. \<open>envPairs\<close> lists the pairs a content defines; lines without \<open>=\<close> define nothing.
\<close>

fun splitLines :: "string \<Rightarrow> string list" where
  "splitLines [] = [[]]"
| "splitLines (c # cs) =
     (if c = CHR 0x0A then [] # splitLines cs
      else (case splitLines cs of l # ls \<Rightarrow> (c # l) # ls | [] \<Rightarrow> [[c]]))"

definition envPairs :: "string \<Rightarrow> (string \<times> string) list" where
  "envPairs content =
     map (\<lambda>l. (keyOf l, drop (Suc (length (keyOf l))) l))
         (filter (\<lambda>l. CHR ''='' \<in> set l) (splitLines content))"

text \<open>A content defines a key when one of its lines is \<open>KEY=VALUE\<close> with that key.\<close>

definition definesKey :: "string \<Rightarrow> string \<Rightarrow> bool" where
  "definesKey content key = (key \<in> fst ` set (envPairs content))"

section \<open>The shared state of the server\<close>

text \<open>
  The module-level state of the hosting routes and what they touch outside the process:
  the port manager singleton, the \<open>runningProcesses\<close> map, the uploaded files in the
  uploads directory, the project directories under \<open>hosted-sites/dynamic\<close> (by project
  name: \<open>getProjectPath\<close> does not use the owner), and the \<open>projects\<close> collection.
  \<open>actions\<close> records, in order, each child process spawned and each SIGTERM sent.

  \<open>runningProcesses\<close> is a JavaScript \<open>Map\<close>: it is modelled as an association list in
  insertion order, \<open>set\<close> replacing the value of a key in place (\<open>AList.update\<close>), \<open>delete\<close>
  removing it (\<open>AList.delete\<close>), \<open>has\<close> and \<open>get\<close> reading it (\<open>map_of\<close>).
\<close>

record process =
  pid :: nat
  killed :: bool

datatype action = Spawned nat | Signalled nat

record project =
  owner :: string
  pname :: string
  ptype :: string
  pstatus :: string
  pport :: "nat option"
  usesMongoDB :: bool

record world =
  ports :: portManager
  runningProcesses :: "(string \<times> process) list"
  actions :: "action list"
  uploads :: "string set"
  sites :: "string \<rightharpoonup> entry list"
  projects :: "project list"

definition projectKey :: "string \<Rightarrow> string \<Rightarrow> string" where
  "projectKey userId projectName = userId @ ''-'' @ projectName"

text \<open>What a route answers: the HTTP status and which of the route's replies it is.\<close>

datatype reply =
    FileRequired
  | NameRequired
  | NameTaken
  | DeployFailed error
  | Deployed project
  | ProjectStopped
  | NotRunning
  | StopFailed
  | ProjectNotFound
  | ProjectRestarted
  | RestartFailed

record response =
  status :: nat
  reply :: reply

section \<open>Starting the backend (startBackendServer)\<close>

text \<open>
  The promise returned by \<open>startBackendServer\<close> and the handlers it installs. A settled
  promise ignores later \<open>resolve\<close> and \<open>reject\<close> calls. \<open>startupTimeout\<close> says whether the
  30 s timer is still armed; every handler but the one for stderr clears it.

  While the promise is pending the server handles the events of the spawned child
  (\<open>Stdout\<close>, \<open>Stderr\<close>, \<open>Close\<close>, \<open>ErrorEvent\<close>) and, possibly, the \<open>close\<close> event of a
  process that an earlier start stored under the same key (\<open>EarlierClose\<close>): the handler
  that the earlier start installed deletes the key as well, and clears the timer of
  that earlier start, not this one.
\<close>

datatype promise = Pending | Resolved | Rejected string

record startState =
  promise :: promise
  startupTimeout :: bool

datatype childEvent =
    Stdout string | Stderr string | Close int | ErrorEvent string | EarlierClose int

datatype event = Child childEvent | GraceTimer | StartupTimer

definition settle :: "promise \<Rightarrow> promise \<Rightarrow> promise" where
  "settle new old = (if old = Pending then new else old)"

definition isReady :: "nat \<Rightarrow> string \<Rightarrow> bool" where
  "isReady port output =
     (str_includes output ''listening'' \<or> str_includes output ''started'' \<or>
      str_includes output (toString port))"

text \<open>
  The synchronous part of the executor: \<open>spawn\<close> runs first; then, if the map has the key,
  the process stored there gets \<open>kill('SIGTERM')\<close>; then the new process is stored.
\<close>

definition spawnBackend :: "string \<Rightarrow> nat \<Rightarrow> world \<Rightarrow> world" where
  "spawnBackend key newPid w =
     (let w1 = w\<lparr>actions := actions w @ [Spawned newPid]\<rparr>;
          w2 = (case map_of (runningProcesses w1) key of
                  Some old \<Rightarrow> w1\<lparr>actions := actions w1 @ [Signalled (pid old)]\<rparr>
                | None \<Rightarrow> w1)
      in w2\<lparr>runningProcesses :=
              AList.update key \<lparr>pid = newPid, killed = False\<rparr> (runningProcesses w2)\<rparr>)"

fun onEvent :: "string \<Rightarrow> nat \<Rightarrow> event \<Rightarrow> startState \<times> world \<Rightarrow> startState \<times> world" where
  "onEvent key port (Child (Stdout output)) (st, w) =
     (if isReady port output
      then (st\<lparr>promise := settle Resolved (promise st), startupTimeout := False\<rparr>, w)
      else (st, w))"
| "onEvent key port (Child (Stderr output)) (st, w) = (st, w)"
| "onEvent key port (Child (Close code)) (st, w) =
     (st\<lparr>startupTimeout := False\<rparr>,
      w\<lparr>runningProcesses := AList.delete key (runningProcesses w)\<rparr>)"
| "onEvent key port (Child (ErrorEvent msg)) (st, w) =
     (st\<lparr>promise := settle (Rejected msg) (promise st), startupTimeout := False\<rparr>, w)"
| "onEvent key port (Child (EarlierClose code)) (st, w) =
     (st, w\<lparr>runningProcesses := AList.delete key (runningProcesses w)\<rparr>)"
| "onEvent key port GraceTimer (st, w) =
     (st\<lparr>promise := settle Resolved (promise st), startupTimeout := False\<rparr>, w)"
| "onEvent key port StartupTimer (st, w) =
     (if startupTimeout st
      then (st\<lparr>promise := settle (Rejected ''Backend startup timeout'') (promise st),
               startupTimeout := False\<rparr>, w)
      else (st, w))"

text \<open>
  \<open>await startBackendServer(...)\<close>: the events are handled in order until the promise is
  settled. The argument of \<open>startBackendServer\<close> is what arrives before the 5 s timer
  fires; that timer and then the 30 s timer follow.
\<close>

fun awaitSettled :: "string \<Rightarrow> nat \<Rightarrow> event list \<Rightarrow> startState \<times> world \<Rightarrow> startState \<times> world" where
  "awaitSettled key port [] sw = sw"
| "awaitSettled key port (e # es) sw =
     (if promise (fst (onEvent key port e sw)) \<noteq> Pending then onEvent key port e sw
      else awaitSettled key port es (onEvent key port e sw))"

definition startBackendServer ::
    "string \<Rightarrow> string \<Rightarrow> nat \<Rightarrow> nat \<Rightarrow> childEvent list \<Rightarrow> world \<Rightarrow> promise \<times> world" where
  "startBackendServer userId projectName port newPid evs w =
     (case awaitSettled (projectKey userId projectName) port
             (map Child evs @ [GraceTimer, StartupTimer])
             (\<lparr>promise = Pending, startupTimeout = True\<rparr>,
              spawnBackend (projectKey userId projectName) newPid w) of
        (st, w') \<Rightarrow> (promise st, w'))"

section \<open>Stopping a project and listing processes\<close>

text \<open>\<open>updateOne\<close> with \<open>$set: {status: "stopped"}\<close>: the first matching document changes.\<close>

fun markStopped :: "string \<Rightarrow> string \<Rightarrow> project list \<Rightarrow> project list" where
  "markStopped userId projectName [] = []"
| "markStopped userId projectName (p # ps) =
     (if owner p = userId \<and> pname p = projectName then p\<lparr>pstatus := ''stopped''\<rparr> # ps
      else p # markStopped userId projectName ps)"

text \<open>
  \<open>POST /stop/:projectName\<close>. \<open>dbOk\<close> says whether the \<open>updateOne\<close> call succeeds; when it
  throws, the \<open>catch\<close> block answers 500, after the process was signalled and its entry
  deleted.
\<close>

definition stopProject :: "string \<Rightarrow> string \<Rightarrow> bool \<Rightarrow> world \<Rightarrow> response \<times> world" where
  "stopProject userId projectName dbOk w =
     (case map_of (runningProcesses w) (projectKey userId projectName) of
        Some proc \<Rightarrow>
          (let w1 = w\<lparr>actions := actions w @ [Signalled (pid proc)],
                      runningProcesses :=
                        AList.delete (projectKey userId projectName) (runningProcesses w)\<rparr>
           in if dbOk
              then (\<lparr>status = 200, reply = ProjectStopped\<rparr>,
                    w1\<lparr>projects := markStopped userId projectName (projects w1)\<rparr>)
              else (\<lparr>status = 500, reply = StopFailed\<rparr>, w1))
      | None \<Rightarrow> (\<lparr>status = 404, reply = NotRunning\<rparr>, w))"

text \<open>
  \<open>GET /processes\<close>: the loop over the map keeps the entries whose key starts with the
  caller's id and reports the key with the first \<open>"<id>-"\<close> removed, the pid and
  \<open>!process.killed\<close>.
\<close>

definition listProcesses :: "string \<Rightarrow> world \<Rightarrow> (string \<times> nat \<times> bool) list" where
  "listProcesses userId w =
     map (\<lambda>(key, proc). (replaceFirst (userId @ ''-'') [] key, pid proc, \<not> killed proc))
         (filter (\<lambda>(key, proc). startsWith key userId) (runningProcesses w))"

section \<open>Deploying a dynamic site (POST /deploy/dynamic)\<close>

text \<open>
  The repository holds two copies of the route that differ in four places. \<open>Recursive\<close> is
  server/routes/hosting.js: it searches the extracted tree with \<open>findDirs\<close>, appends the
  missing lines to \<open>.env\<close>, never starts a process, and its \<open>catch\<close> block removes the
  project directory. \<open>Supervised\<close> is the copy that also holds \<open>startBackendServer\<close> and
  the stop, restart and processes routes: it looks for the two directories at the top
  level only, writes \<open>.env\<close> whole or not at all, installs the dependencies, builds,
  starts the backend, and its \<open>catch\<close> block stops the process but keeps the directory.

  A request carries the caller's id, the path multer stored the upload at (\<open>None\<close> when no
  file came) and the \<open>projectName\<close> field of the body. \<open>outcomes\<close> collects what the world
  outside the server decides during one deployment: what the archive extracts to (\<open>None\<close>
  when AdmZip throws), which texts \<open>JSON.parse\<close> accepts, how the three npm commands end,
  the pid and the events of the spawned backend, and whether \<open>insertOne\<close> succeeds.
  Reading the collection and unlinking the upload are taken to succeed.
\<close>

datatype variant = Recursive | Supervised

record package =
  pkgName :: string
  dependencies :: "string list"
  devDependencies :: "string list"

record deployRequest =
  reqUser :: string
  reqFile :: "string option"
  reqName :: "string option"

datatype cmdOutcome = Exited nat | SpawnFailed

record outcomes =
  archive :: "entry list option"
  parseJSON :: "string \<Rightarrow> package option"
  installBackend :: cmdOutcome
  installFrontend :: cmdOutcome
  buildFrontend :: cmdOutcome
  newPid :: nat
  backendEvents :: "childEvent list"
  insertOk :: bool

text \<open>The three \<open>let\<close> variables of the handler, which its \<open>catch\<close> block reads.\<close>

record locals =
  tempFilePath :: "string option"
  projectPath :: "string option"
  allocatedPort :: "nat option"

datatype tried = Returned response | Threw error

text \<open>
  \<open>createProjectDirectory\<close> (utils/fileSystem.js): \<open>getProjectPath\<close> joins the directory
  \<open>hosted-sites/dynamic\<close> and the project name; the function throws when \<open>fs.access\<close>
  finds that path and otherwise creates it with \<open>fs.mkdir\<close>, \<open>recursive: true\<close>.

  \<open>sites\<close> holds the directories directly inside \<open>hosted-sites/dynamic\<close>, by name. That
  is the file system as the routes see it when every project name is a single path
  component (\<open>plainName\<close>, for a POSIX file system that tells upper from lower case): the
  joined path is then the child of that name. A name with \<open>/\<close> in it, or \<open>.\<close> or \<open>..\<close>,
  joins to another path: a nested one, whose missing parents \<open>mkdir\<close> creates and no
  rollback removes, or the directory itself or its parent, which exist. The statements
  about project directories below are made for plain names and for a \<open>sites\<close> whose names
  are plain.
\<close>

definition plainName :: "string \<Rightarrow> bool" where
  "plainName name =
     (name \<noteq> [] \<and> name \<noteq> ''.'' \<and> name \<noteq> ''..'' \<and>
      CHR ''/'' \<notin> set name \<and> CHR 0x00 \<notin> set name \<and> length name \<le> 255)"

definition createProjectDirectory :: "string \<Rightarrow> world \<Rightarrow> error + world" where
  "createProjectDirectory name w =
     (case sites w name of
        Some existing \<Rightarrow> Inl (ProjectExists name)
      | None \<Rightarrow> Inr (w\<lparr>sites := (sites w)(name \<mapsto> [])\<rparr>))"

definition locateDirs :: "variant \<Rightarrow> entry list \<Rightarrow> path option \<times> path option" where
  "locateDirs v es =
     (case v of Recursive \<Rightarrow> findDirs [] es | Supervised \<Rightarrow> topLevelDirs [] es (None, None))"

definition syncEnv :: "variant \<Rightarrow> nat \<Rightarrow> string option \<Rightarrow> string option" where
  "syncEnv v port content =
     (case v of Recursive \<Rightarrow> syncEnvAppend port content | Supervised \<Rightarrow> syncEnvWrite port content)"

definition envWriteNeeded :: "variant \<Rightarrow> nat \<Rightarrow> string option \<Rightarrow> bool" where
  "envWriteNeeded v port content =
     (case v of Recursive \<Rightarrow> missingVars port content \<noteq> [] | Supervised \<Rightarrow> needsEnvUpdate content)"

definition readManifest :: "outcomes \<Rightarrow> path \<Rightarrow> entry list \<Rightarrow> package option" where
  "readManifest out dir es =
     (case subtreeAt dir es of
        Some sub \<Rightarrow>
          (case readFile ''package.json'' sub of Some text \<Rightarrow> parseJSON out text | None \<Rightarrow> None)
      | None \<Rightarrow> None)"

definition detectMongo :: "variant \<Rightarrow> package \<Rightarrow> bool" where
  "detectMongo v backendPackage =
     (''mongodb'' \<in> set (dependencies backendPackage) \<or>
      ''mongoose'' \<in> set (dependencies backendPackage) \<or>
      (v = Recursive \<and>
       (''mongodb'' \<in> set (devDependencies backendPackage) \<or>
        ''mongoose'' \<in> set (devDependencies backendPackage))))"

text \<open>From the metadata insert to the success reply.\<close>

definition stageCommit ::
    "variant \<Rightarrow> deployRequest \<Rightarrow> outcomes \<Rightarrow> string \<Rightarrow> string \<Rightarrow> package \<Rightarrow> nat \<Rightarrow>
     locals \<Rightarrow> world \<Rightarrow> tried \<times> locals \<times> world" where
  "stageCommit v req out upload name backendPackage port l w =
     (let newProject =
            \<lparr>owner = reqUser req, pname = name, ptype = ''dynamic'',
             pstatus = (case v of Recursive \<Rightarrow> ''deployed'' | Supervised \<Rightarrow> ''active''),
             pport = Some port, usesMongoDB = detectMongo v backendPackage\<rparr>
      in if \<not> insertOk out then (Threw DbFailed, l, w)
         else (Returned \<lparr>status = 200, reply = Deployed newProject\<rparr>,
               l\<lparr>tempFilePath := None\<rparr>,
               w\<lparr>projects := projects w @ [newProject], uploads := uploads w - {upload}\<rparr>))"

text \<open>Install, build and start: only the supervised copy has these stages. A failed build
  is logged and ignored.\<close>

definition stageRun ::
    "variant \<Rightarrow> deployRequest \<Rightarrow> outcomes \<Rightarrow> string \<Rightarrow> string \<Rightarrow> package \<Rightarrow> nat \<Rightarrow>
     locals \<Rightarrow> world \<Rightarrow> tried \<times> locals \<times> world" where
  "stageRun v req out upload name backendPackage port l w =
     (case v of
        Recursive \<Rightarrow> stageCommit v req out upload name backendPackage port l w
      | Supervised \<Rightarrow>
          if installBackend out \<noteq> Exited 0 then (Threw BackendDepsFailed, l, w)
          else if installFrontend out \<noteq> Exited 0 then (Threw FrontendDepsFailed, l, w)
          else (case startBackendServer (reqUser req) name port (newPid out) (backendEvents out) w of
                  (Rejected msg, w1) \<Rightarrow> (Threw (BackendStartFailed msg), l, w1)
                | (settled, w1) \<Rightarrow> stageCommit v req out upload name backendPackage port l w1))"

text \<open>Port allocation and the \<open>.env\<close> block.\<close>

definition stageConfigure ::
    "variant \<Rightarrow> deployRequest \<Rightarrow> outcomes \<Rightarrow> string \<Rightarrow> string \<Rightarrow> package \<Rightarrow>
     entry list \<Rightarrow> entry list \<Rightarrow> locals \<Rightarrow> world \<Rightarrow> tried \<times> locals \<times> world" where
  "stageConfigure v req out upload name backendPackage frontendFiles backendFiles l w =
     (case allocatePort (ports w) of
        Inl e \<Rightarrow> (Threw e, l, w)
      | Inr (port, pm) \<Rightarrow>
          (let l1 = l\<lparr>allocatedPort := Some port\<rparr>;
               w1 = w\<lparr>ports := pm\<rparr>;
               envBefore = readFile ''.env'' frontendFiles
           in if \<not> envWriteNeeded v port envBefore
              then stageRun v req out upload name backendPackage port l1 w1
              else (case writeFile ''.env''
                           (case syncEnv v port envBefore of Some text \<Rightarrow> text | None \<Rightarrow> [])
                           frontendFiles of
                      None \<Rightarrow> (Threw EnvWriteFailed, l1, w1)
                    | Some frontendFiles' \<Rightarrow>
                        stageRun v req out upload name backendPackage port l1
                          (w1\<lparr>sites := (sites w1)(name \<mapsto>
                                 [Dir ''frontend'' frontendFiles', Dir ''backend'' backendFiles])\<rparr>))))"

text \<open>
  The structure check, the two manifests, and the two \<open>fs.rename\<close> calls followed by the
  removal of \<open>temp_extract\<close>. The second rename fails when the first one moved the
  backend directory away (it was inside the frontend directory).
\<close>

definition stageValidate ::
    "variant \<Rightarrow> deployRequest \<Rightarrow> outcomes \<Rightarrow> string \<Rightarrow> string \<Rightarrow> entry list \<Rightarrow>
     locals \<Rightarrow> world \<Rightarrow> tried \<times> locals \<times> world" where
  "stageValidate v req out upload name es l w =
     (case locateDirs v es of
        (Some frontendDir, Some backendDir) \<Rightarrow>
          (case readManifest out frontendDir es of
             None \<Rightarrow> (Threw FrontendManifest, l, w)
           | Some frontendPackage \<Rightarrow>
               (case readManifest out backendDir es of
                  None \<Rightarrow> (Threw BackendManifest, l, w)
                | Some backendPackage \<Rightarrow>
                    (case subtreeAt frontendDir es of
                       None \<Rightarrow> (Threw MoveFailed, l, w)
                     | Some frontendFiles \<Rightarrow>
                         (case subtreeAt backendDir (removeAt frontendDir es) of
                            None \<Rightarrow>
                              (Threw MoveFailed, l,
                               w\<lparr>sites := (sites w)(name \<mapsto>
                                    [Dir ''temp_extract'' (removeAt frontendDir es),
                                     Dir ''frontend'' frontendFiles])\<rparr>)
                          | Some backendFiles \<Rightarrow>
                              stageConfigure v req out upload name backendPackage
                                frontendFiles backendFiles l
                                (w\<lparr>sites := (sites w)(name \<mapsto>
                                     [Dir ''frontend'' frontendFiles,
                                      Dir ''backend'' backendFiles])\<rparr>)))))
      | (frontendDir, backendDir) \<Rightarrow> (Threw InvalidStructure, l, w))"

text \<open>Creating the project directory and extracting the archive into \<open>temp_extract\<close>.\<close>

definition stageExtract ::
    "variant \<Rightarrow> deployRequest \<Rightarrow> outcomes \<Rightarrow> string \<Rightarrow> string \<Rightarrow>
     locals \<Rightarrow> world \<Rightarrow> tried \<times> locals \<times> world" where
  "stageExtract v req out upload name l w =
     (case createProjectDirectory name w of
        Inl e \<Rightarrow> (Threw e, l, w)
      | Inr w1 \<Rightarrow>
          (let l1 = l\<lparr>projectPath := Some name\<rparr>
           in case archive out of
                None \<Rightarrow>
                  (Threw ExtractionFailed, l1,
                   w1\<lparr>sites := (sites w1)(name \<mapsto> [Dir ''temp_extract'' []])\<rparr>)
              | Some es \<Rightarrow>
                  stageValidate v req out upload name es l1
                    (w1\<lparr>sites := (sites w1)(name \<mapsto> [Dir ''temp_extract'' es])\<rparr>)))"

text \<open>
  The \<open>try\<close> block from its start: the three early \<open>return\<close>s (no file, no name, name
  taken) leave all three variables \<open>null\<close>; \<open>tempFilePath\<close> is assigned only after them.
\<close>

definition deployTry ::
    "variant \<Rightarrow> deployRequest \<Rightarrow> outcomes \<Rightarrow> world \<Rightarrow> tried \<times> locals \<times> world" where
  "deployTry v req out w =
     (let l0 = \<lparr>tempFilePath = None, projectPath = None, allocatedPort = None\<rparr>
      in case reqFile req of
           None \<Rightarrow> (Returned \<lparr>status = 400, reply = FileRequired\<rparr>, l0, w)
         | Some upload \<Rightarrow>
             (case reqName req of
                None \<Rightarrow> (Returned \<lparr>status = 400, reply = NameRequired\<rparr>, l0, w)
              | Some raw \<Rightarrow>
                  if raw = [] \<or> trim raw = []
                  then (Returned \<lparr>status = 400, reply = NameRequired\<rparr>, l0, w)
                  else if \<exists>p \<in> set (projects w). owner p = reqUser req \<and> pname p = trim raw
                  then (Returned \<lparr>status = 409, reply = NameTaken\<rparr>, l0, w)
                  else stageExtract v req out upload (trim raw)
                         (l0\<lparr>tempFilePath := Some upload\<rparr>) w))"

text \<open>
  The \<open>catch\<close> block. Both copies unlink the upload when \<open>tempFilePath\<close> is set and release
  the port when \<open>allocatedPort\<close> is set (JavaScript truthiness: a non-empty path, a
  non-zero port; \<open>projectPath\<close>, once set, is a joined path and never empty). The recursive copy then removes the project directory when
  \<open>projectPath\<close> is set; the supervised copy instead signals and deletes the process
  registered under the key built from the body's \<open>projectName\<close> as sent (not trimmed),
  or from \<open>"unknown"\<close>.
\<close>

definition deployCatch :: "variant \<Rightarrow> deployRequest \<Rightarrow> locals \<Rightarrow> world \<Rightarrow> world" where
  "deployCatch v req l w =
     (let w1 = (case tempFilePath l of
                  Some p \<Rightarrow> if p \<noteq> [] then w\<lparr>uploads := uploads w - {p}\<rparr> else w
                | None \<Rightarrow> w);
          w2 = (case v of
                  Recursive \<Rightarrow>
                    (case projectPath l of
                       Some name \<Rightarrow> w1\<lparr>sites := (sites w1)(name := None)\<rparr>
                     | None \<Rightarrow> w1)
                | Supervised \<Rightarrow> w1);
          w3 = (case allocatedPort l of
                  Some port \<Rightarrow> if port \<noteq> 0 then w2\<lparr>ports := releasePort port (ports w2)\<rparr> else w2
                | None \<Rightarrow> w2);
          key = projectKey (reqUser req)
                  (case reqName req of Some raw \<Rightarrow> if raw \<noteq> [] then raw else ''unknown''
                   | None \<Rightarrow> ''unknown'')
      in case v of
           Recursive \<Rightarrow> w3
         | Supervised \<Rightarrow>
             (case map_of (runningProcesses w3) key of
                Some proc \<Rightarrow>
                  w3\<lparr>actions := actions w3 @ [Signalled (pid proc)],
                     runningProcesses := AList.delete key (runningProcesses w3)\<rparr>
              | None \<Rightarrow> w3))"

definition deployDynamic ::
    "variant \<Rightarrow> deployRequest \<Rightarrow> outcomes \<Rightarrow> world \<Rightarrow> response \<times> world" where
  "deployDynamic v req out w =
     (case deployTry v req out w of
        (Returned r, l, w') \<Rightarrow> (r, w')
      | (Threw e, l, w') \<Rightarrow> (\<lparr>status = 500, reply = DeployFailed e\<rparr>, deployCatch v req l w'))"

section \<open>Restarting a project (POST /restart/:projectName)\<close>

text \<open>
  The route of the supervised copy: it looks the project up in the collection (404 when
  the caller has none of that name); when the map has the key, the process stored there
  gets \<open>kill('SIGTERM')\<close> and the key is deleted; then it awaits
  \<open>startBackendServer\<close> with the port stored in the project, sets the status of the
  project it found to \<open>active\<close> and answers 200. Whatever is thrown after the lookup is
  answered with 500: a rejected start, a failing \<open>updateOne\<close> (\<open>dbOk\<close>), and also the
  \<open>TypeError\<close> of \<open>port.toString()\<close> for a project stored without a port, which is
  raised before \<open>spawn\<close> is called.
\<close>

fun markActive :: "string \<Rightarrow> string \<Rightarrow> project list \<Rightarrow> project list" where
  "markActive userId projectName [] = []"
| "markActive userId projectName (p # ps) =
     (if owner p = userId \<and> pname p = projectName then p\<lparr>pstatus := ''active''\<rparr> # ps
      else p # markActive userId projectName ps)"

definition restartProject ::
    "string \<Rightarrow> string \<Rightarrow> nat \<Rightarrow> childEvent list \<Rightarrow> bool \<Rightarrow> world \<Rightarrow> response \<times> world" where
  "restartProject userId projectName npid evs dbOk w =
     (case find (\<lambda>p. owner p = userId \<and> pname p = projectName) (projects w) of
        None \<Rightarrow> (\<lparr>status = 404, reply = ProjectNotFound\<rparr>, w)
      | Some found \<Rightarrow>
          (let key = projectKey userId projectName;
               w1 = (case map_of (runningProcesses w) key of
                       Some proc \<Rightarrow>
                         w\<lparr>actions := actions w @ [Signalled (pid proc)],
                           runningProcesses := AList.delete key (runningProcesses w)\<rparr>
                     | None \<Rightarrow> w)
           in case pport found of
                None \<Rightarrow> (\<lparr>status = 500, reply = RestartFailed\<rparr>, w1)
              | Some port \<Rightarrow>
                  (case startBackendServer userId projectName port npid evs w1 of
                     (Rejected msg, w2) \<Rightarrow> (\<lparr>status = 500, reply = RestartFailed\<rparr>, w2)
                   | (settled, w2) \<Rightarrow>
                       if dbOk
                       then (\<lparr>status = 200, reply = ProjectRestarted\<rparr>,
                             w2\<lparr>projects := markActive userId projectName (projects w2)\<rparr>)
                       else (\<lparr>status = 500, reply = RestartFailed\<rparr>, w2))))"

section \<open>The states the supervised server reaches\<close>

text \<open>
  The server boots with an empty map of running processes, on the disk and the project
  collection that earlier runs left. Only a dynamic deployment stores a project with a
  port, after it has created the project directory, and nothing in the supervised copy
  removes a directory; so at boot every stored project that has a port has its
  directory. Then the server handles, one after the other: deployments, stops and
  restarts by authenticated users, whose ids all have the length \<open>idLength\<close>; the \<open>close\<close>
  event of a child whose start has settled, which deletes the child's key; an upload
  stored by multer; and the other routes, which store projects without a port (static
  deployment) and delete projects. Directories may also appear by other means; none
  disappears.
\<close>

inductive reachable :: "nat \<Rightarrow> world \<Rightarrow> bool" for idLength :: nat where
  boot:
    "runningProcesses w = [] \<Longrightarrow>
     \<forall>p \<in> set (projects w). pport p \<noteq> None \<longrightarrow> sites w (pname p) \<noteq> None \<Longrightarrow>
     reachable idLength w"
| deploy:
    "reachable idLength w \<Longrightarrow> length (reqUser req) = idLength \<Longrightarrow>
     reachable idLength (snd (deployDynamic Supervised req out w))"
| stop:
    "reachable idLength w \<Longrightarrow> length userId = idLength \<Longrightarrow>
     reachable idLength (snd (stopProject userId projectName dbOk w))"
| restart:
    "reachable idLength w \<Longrightarrow> length userId = idLength \<Longrightarrow>
     reachable idLength (snd (restartProject userId projectName npid evs dbOk w))"
| closed:
    "reachable idLength w \<Longrightarrow>
     reachable idLength (w\<lparr>runningProcesses := AList.delete key (runningProcesses w)\<rparr>)"
| stored:
    "reachable idLength w \<Longrightarrow> reachable idLength (w\<lparr>uploads := insert upload (uploads w)\<rparr>)"
| metadata:
    "reachable idLength w \<Longrightarrow>
     \<forall>p \<in> set ps. pport p \<noteq> None \<longrightarrow> p \<in> set (projects w) \<Longrightarrow>
     reachable idLength (w\<lparr>projects := ps\<rparr>)"
| created:
    "reachable idLength w \<Longrightarrow>
     \<forall>name. sites w name \<noteq> None \<longrightarrow> dirs name \<noteq> None \<Longrightarrow>
     reachable idLength (w\<lparr>sites := dirs\<rparr>)"

text \<open>
  What holds in every such state: the keys of the map are distinct; every key is the key
  of some user and project name whose project directory exists; and every stored project
  that has a port has its directory.
\<close>

definition consistent :: "nat \<Rightarrow> world \<Rightarrow> bool" where
  "consistent idLength w =
     (distinct (map fst (runningProcesses w)) \<and>
      (\<forall>key \<in> fst ` set (runningProcesses w).
         \<exists>u n. length u = idLength \<and> key = projectKey u n \<and> sites w n \<noteq> None) \<and>
      (\<forall>p \<in> set (projects w). pport p \<noteq> None \<longrightarrow> sites w (pname p) \<noteq> None))"

text \<open>
  How one request of user \<open>u\<close> about the project \<open>name\<close> may change the state: no
  directory disappears; a key that is new is the key of \<open>u\<close> and \<open>name\<close>, and then the
  directory of \<open>name\<close> exists; a stored project is an old one, possibly with another
  status, or one whose directory exists.
\<close>

definition grows :: "string \<Rightarrow> string \<Rightarrow> world \<Rightarrow> world \<Rightarrow> bool" where
  "grows u name w w' =
     ((distinct (map fst (runningProcesses w)) \<longrightarrow> distinct (map fst (runningProcesses w'))) \<and>
      (\<forall>m. sites w m \<noteq> None \<longrightarrow> sites w' m \<noteq> None) \<and>
      (\<forall>key \<in> fst ` set (runningProcesses w').
         key \<in> fst ` set (runningProcesses w) \<or>
         (key = projectKey u name \<and> sites w' name \<noteq> None)) \<and>
      (\<forall>p' \<in> set (projects w').
         (\<exists>p \<in> set (projects w). pname p' = pname p \<and> pport p' = pport p) \<or>
         sites w' (pname p') \<noteq> None))"

section \<open>Ownership of registry entries\<close>

text \<open>
  The map stores no owner: an entry belongs to the caller who started it, under the key
  built from the caller's id and the project name. \<open>registryOf\<close> is the map that a list of
  started processes, each with its owner and project name, gives; \<open>ownProcesses\<close> is what
  the caller's own entries read as: project name, pid, running flag.
\<close>

definition registryOf :: "(string \<times> string \<times> process) list \<Rightarrow> (string \<times> process) list" where
  "registryOf started = map (\<lambda>(u, n, p). (projectKey u n, p)) started"

definition ownProcesses ::
    "string \<Rightarrow> (string \<times> string \<times> process) list \<Rightarrow> (string \<times> nat \<times> bool) list" where
  "ownProcesses caller started =
     map (\<lambda>(u, n, p). (n, pid p, \<not> killed p)) (filter (\<lambda>(u, n, p). u = caller) started)"

section \<open>What decides the outcome of a start\<close>

text \<open>
  An event decides the promise when it is a stdout chunk of the child holding one of
  the readiness substrings, or an \<open>error\<close> event of the child. \<open>exitsFirst\<close> says
  that the child closes before any deciding event.
\<close>

definition decisive :: "nat \<Rightarrow> childEvent \<Rightarrow> bool" where
  "decisive port e =
     (case e of Stdout output \<Rightarrow> isReady port output | ErrorEvent msg \<Rightarrow> True | _ \<Rightarrow> False)"

definition exitsFirst :: "nat \<Rightarrow> childEvent list \<Rightarrow> bool" where
  "exitsFirst port evs = (\<exists>code. Close code \<in> set (takeWhile (\<lambda>e. \<not> decisive port e) evs))"

text \<open>
  The bookkeeping between the handler's variable \<open>allocatedPort\<close> and the allocator: while
  the variable is unset the allocator is as the request found it, and once it is set the
  allocator is what allocating that port made of it.
\<close>

definition portLedger :: "world \<Rightarrow> tried \<times> locals \<times> world \<Rightarrow> bool" where
  "portLedger w r =
     (case allocatedPort (fst (snd r)) of
        None \<Rightarrow> ports (snd (snd r)) = ports w
      | Some p \<Rightarrow> allocatePort (ports w) = Inr (p, ports (snd (snd r))))"

section \<open>A sample deployment\<close>

text \<open>
  A server that has just started (no port held, no process, no project, no project
  directory) with one upload stored by multer; a request by user \<open>u1\<close> to deploy it as
  \<open>app\<close>; an archive with \<open>frontend/package.json\<close> and \<open>backend/package.json\<close>; and a
  run in which every command succeeds and the backend prints a line with the word
  \<open>listening\<close>. The closed theorems below vary one field at a time.
\<close>

definition sampleWorld :: world where
  "sampleWorld =
     \<lparr>ports = newPortManager, runningProcesses = [], actions = [],
      uploads = {''uploads/1-app.zip''}, sites = Map.empty, projects = []\<rparr>"

definition sampleRequest :: deployRequest where
  "sampleRequest = \<lparr>reqUser = ''u1'', reqFile = Some ''uploads/1-app.zip'', reqName = Some ''app''\<rparr>"

definition sampleTree :: "entry list" where
  "sampleTree =
     [Dir ''frontend'' [File ''package.json'' ''{}''],
      Dir ''backend'' [File ''package.json'' ''{}'']]"

definition sampleOutcomes :: outcomes where
  "sampleOutcomes =
     \<lparr>archive = Some sampleTree,
      parseJSON = (\<lambda>text. if text = ''{}''
                           then Some \<lparr>pkgName = [], dependencies = [], devDependencies = []\<rparr>
                           else None),
      installBackend = Exited 0, installFrontend = Exited 0, buildFrontend = Exited 0,
      newPid = 42, backendEvents = [Stdout ''listening''], insertOk = True\<rparr>"

text \<open>What \<open>npm start\<close> emits for a backend whose \<open>package.json\<close> has no start script:
  an error on stderr, then \<open>close\<close> with code 1.\<close>

definition crashEvents :: "childEvent list" where
  "crashEvents = [Stderr ''npm ERR! missing script: start'', Close 1]"

section \<open>Verified properties\<close>

subsection \<open>The port allocator\<close>

lemma scanPorts_filter:
  "scanPorts used lo hi =
     (case filter (\<lambda>p. p \<notin> used) [lo ..< Suc hi] of [] \<Rightarrow> None | p # _ \<Rightarrow> Some p)"
proof (induction used lo hi rule: scanPorts.induct)
  case (1 used port hi)
  show ?case
  proof (cases "port \<le> hi")
    case False
    then show ?thesis by (simp add: scanPorts.simps [of used port hi])
  next
    case True
    then have range: "[port ..< Suc hi] = port # [port + 1 ..< Suc hi]"
      by (simp add: upt_conv_Cons)
    show ?thesis
    proof (cases "port \<in> used")
      case True
      with \<open>port \<le> hi\<close> "1.IH" range show ?thesis
        by (simp add: scanPorts.simps [of used port hi])
    next
      case False
      with \<open>port \<le> hi\<close> range show ?thesis
        by (simp add: scanPorts.simps [of used port hi])
    qed
  qed
qed

lemma allocatePort_freePorts:
  "allocatePort pm =
     (case freePorts pm of
        [] \<Rightarrow> Inl NoPortAvailable
      | p # _ \<Rightarrow> Inr (p, pm\<lparr>usedPorts := insert p (usedPorts pm)\<rparr>))"
  by (simp add: allocatePort_def freePorts_def scanPorts_filter split: list.splits)

lemma distinct_freePorts: "distinct (freePorts pm)"
  by (simp add: freePorts_def)

lemma freePorts_after_insert:
  assumes "freePorts pm = p # ps"
  shows "freePorts (pm\<lparr>usedPorts := insert p (usedPorts pm)\<rparr>) = ps"
proof -
  have "freePorts (pm\<lparr>usedPorts := insert p (usedPorts pm)\<rparr>) =
        filter (\<lambda>q. q \<noteq> p) (freePorts pm)"
    by (simp add: freePorts_def conj_commute)
  also have "\<dots> = filter (\<lambda>q. q \<noteq> p) ps"
    using assms by simp
  also have "\<dots> = ps"
  proof -
    from distinct_freePorts [of pm] assms have "p \<notin> set ps" by simp
    then show ?thesis by (induction ps) auto
  qed
  finally show ?thesis .
qed

lemma allocateMany_freePorts:
  "fst (allocateMany n pm) =
     map Inr (take n (freePorts pm)) @
     replicate (n - length (freePorts pm)) (Inl NoPortAvailable)"
proof (induction n arbitrary: pm)
  case 0
  show ?case by simp
next
  case (Suc n)
  show ?case
  proof (cases "freePorts pm")
    case Nil
    with Suc.IH [of pm] show ?thesis
      by (auto simp add: allocatePort_freePorts split: prod.splits)
  next
    case (Cons p ps)
    with Suc.IH [of "pm\<lparr>usedPorts := insert p (usedPorts pm)\<rparr>"]
      freePorts_after_insert [OF Cons]
    show ?thesis
      by (auto simp add: allocatePort_freePorts split: prod.splits)
  qed
qed

lemma set_freePorts:
  "set (freePorts pm) = {p. minPort pm \<le> p \<and> p \<le> maxPort pm \<and> p \<notin> usedPorts pm}"
  by (auto simp: freePorts_def)

lemma sorted_freePorts: "sorted (freePorts pm)"
  by (simp add: freePorts_def sorted_wrt_filter del: upt_Suc)

lemma scanPorts_Some:
  "scanPorts used lo hi = Some p \<longleftrightarrow>
     lo \<le> p \<and> p \<le> hi \<and> p \<notin> used \<and> (\<forall>q. lo \<le> q \<and> q < p \<longrightarrow> q \<in> used)"
proof (induction used lo hi rule: scanPorts.induct)
  case (1 used port hi)
  show ?case
  proof (cases "port \<le> hi \<and> port \<in> used")
    case True
    then have "scanPorts used port hi = scanPorts used (port + 1) hi"
      by (simp add: scanPorts.simps [of used port hi])
    moreover from True "1.IH" have
      "scanPorts used (port + 1) hi = Some p \<longleftrightarrow>
         port + 1 \<le> p \<and> p \<le> hi \<and> p \<notin> used \<and> (\<forall>q. port + 1 \<le> q \<and> q < p \<longrightarrow> q \<in> used)"
      by simp
    moreover have
      "(port + 1 \<le> p \<and> p \<le> hi \<and> p \<notin> used \<and> (\<forall>q. port + 1 \<le> q \<and> q < p \<longrightarrow> q \<in> used)) \<longleftrightarrow>
       (port \<le> p \<and> p \<le> hi \<and> p \<notin> used \<and> (\<forall>q. port \<le> q \<and> q < p \<longrightarrow> q \<in> used))"
      using True by (metis Suc_eq_plus1 Suc_leI le_eq_less_or_eq Suc_leD)
    ultimately show ?thesis by simp
  next
    case False
    then show ?thesis
      by (auto simp: scanPorts.simps [of used port hi] dest: leD)
  qed
qed

lemma scanPorts_None:
  "scanPorts used lo hi = None \<longleftrightarrow> (\<forall>q. lo \<le> q \<and> q \<le> hi \<longrightarrow> q \<in> used)"
proof (induction used lo hi rule: scanPorts.induct)
  case (1 used port hi)
  show ?case
  proof (cases "port \<le> hi \<and> port \<in> used")
    case True
    then have "scanPorts used port hi = scanPorts used (port + 1) hi"
      by (simp add: scanPorts.simps [of used port hi])
    moreover from True "1.IH" have
      "scanPorts used (port + 1) hi = None \<longleftrightarrow> (\<forall>q. port + 1 \<le> q \<and> q \<le> hi \<longrightarrow> q \<in> used)"
      by simp
    moreover have
      "(\<forall>q. port + 1 \<le> q \<and> q \<le> hi \<longrightarrow> q \<in> used) \<longleftrightarrow> (\<forall>q. port \<le> q \<and> q \<le> hi \<longrightarrow> q \<in> used)"
      using True by (metis Suc_eq_plus1 Suc_leI le_eq_less_or_eq Suc_leD)
    ultimately show ?thesis by simp
  next
    case False
    then show ?thesis
      by (auto simp: scanPorts.simps [of used port hi])
  qed
qed

lemma allocatePort_Inr_iff:
  "allocatePort pm = Inr (p, pm') \<longleftrightarrow>
      minPort pm \<le> p \<and> p \<le> maxPort pm \<and> p \<notin> usedPorts pm \<and>
      (\<forall>q. minPort pm \<le> q \<and> q < p \<longrightarrow> q \<in> usedPorts pm) \<and>
      pm' = pm\<lparr>usedPorts := insert p (usedPorts pm)\<rparr>"
  using scanPorts_Some [of "usedPorts pm" "minPort pm" "maxPort pm" p]
  by (cases "scanPorts (usedPorts pm) (minPort pm) (maxPort pm)")
     (auto simp: allocatePort_def)

lemma allocatePort_Inl_iff:
  "allocatePort pm = Inl e \<longleftrightarrow>
      e = NoPortAvailable \<and>
      (\<forall>q. minPort pm \<le> q \<and> q \<le> maxPort pm \<longrightarrow> q \<in> usedPorts pm)"
  using scanPorts_None [of "usedPorts pm" "minPort pm" "maxPort pm"]
  by (cases "scanPorts (usedPorts pm) (minPort pm) (maxPort pm)")
     (auto simp: allocatePort_def)

text \<open>
  C6. \<open>allocatePort\<close> returns a port \<open>p\<close> exactly when \<open>p\<close> is the smallest port of
  \<open>[minPort, maxPort]\<close> that is not held, and then the new state holds \<open>p\<close> in addition;
  it fails, with the "no port available" error, exactly when every port of the range is
  held. Hence \<open>n\<close> allocations in a row with no release return the first \<open>n\<close> free ports of
  the range in ascending order, which are pairwise distinct, and every call after the
  free ports have run out fails with that error.
\<close>

theorem allocatePort_smallest_unheld:
  "(allocatePort pm = Inr (p, pm') \<longleftrightarrow>
      minPort pm \<le> p \<and> p \<le> maxPort pm \<and> p \<notin> usedPorts pm \<and>
      (\<forall>q. minPort pm \<le> q \<and> q < p \<longrightarrow> q \<in> usedPorts pm) \<and>
      pm' = pm\<lparr>usedPorts := insert p (usedPorts pm)\<rparr>) \<and>
   (allocatePort pm = Inl e \<longleftrightarrow>
      e = NoPortAvailable \<and>
      (\<forall>q. minPort pm \<le> q \<and> q \<le> maxPort pm \<longrightarrow> q \<in> usedPorts pm)) \<and>
   fst (allocateMany n pm) =
      map Inr (take n (freePorts pm)) @
      replicate (n - length (freePorts pm)) (Inl NoPortAvailable) \<and>
   distinct (take n (freePorts pm)) \<and>
   set (freePorts pm) = {q. minPort pm \<le> q \<and> q \<le> maxPort pm \<and> q \<notin> usedPorts pm}"
proof -
  have "distinct (take n (freePorts pm))"
    by (rule distinct_take) (rule distinct_freePorts)
  with allocatePort_Inr_iff [of pm p pm'] allocatePort_Inl_iff [of pm e]
    allocateMany_freePorts [of n pm] set_freePorts [of pm]
  show ?thesis by blast
qed

theorem allocatePort_smallest_unheld_witness:
  "allocatePort \<lparr>usedPorts = {3001}, minPort = 3001, maxPort = 3003\<rparr> =
     Inr (3002, \<lparr>usedPorts = {3002, 3001}, minPort = 3001, maxPort = 3003\<rparr>) \<and>
   fst (allocateMany 3 \<lparr>usedPorts = {3001}, minPort = 3001, maxPort = 3003\<rparr>) =
     [Inr 3002, Inr 3003, Inl NoPortAvailable]"
  using allocatePort_smallest_unheld
    [of "\<lparr>usedPorts = {3001}, minPort = 3001, maxPort = 3003\<rparr>" 3002
        "\<lparr>usedPorts = {3002, 3001}, minPort = 3001, maxPort = 3003\<rparr>" NoPortAvailable 3]
  by (simp add: freePorts_def)

text \<open>
  The held ports stay inside the range: true of the fresh allocator and kept by both
  methods. So the ports that \<open>releasePort\<close> can be asked to give back are ports of the range.
\<close>

lemma allocatePort_in_range:
  assumes "usedPorts pm \<subseteq> {minPort pm .. maxPort pm}"
    and "allocatePort pm = Inr (p, pm')"
  shows "usedPorts pm' \<subseteq> {minPort pm' .. maxPort pm'}"
  using assms by (auto simp: allocatePort_Inr_iff)

lemma releasePort_in_range:
  assumes "usedPorts pm \<subseteq> {minPort pm .. maxPort pm}"
  shows "usedPorts (releasePort p pm) \<subseteq> {minPort (releasePort p pm) .. maxPort (releasePort p pm)}"
  using assms by (auto simp: releasePort_def)

lemma newPortManager_in_range:
  "usedPorts newPortManager \<subseteq> {minPort newPortManager .. maxPort newPortManager}"
  by (simp add: newPortManager_def)

text \<open>
  C7. Releasing a port that is not held returns the allocator unchanged (the method has no
  failing branch). After a held port \<open>p\<close> of the range is released, the next allocation
  succeeds with a port not above \<open>p\<close>, and it returns \<open>p\<close> itself, restoring the state
  before the release, exactly when every lower port of the range is held.
\<close>

theorem releasePort_noop_and_reuse:
  "(p \<notin> usedPorts pm \<longrightarrow> releasePort p pm = pm) \<and>
   (p \<in> usedPorts pm \<and> minPort pm \<le> p \<and> p \<le> maxPort pm \<longrightarrow>
      (\<exists>q pm'. allocatePort (releasePort p pm) = Inr (q, pm') \<and> q \<le> p \<and>
         (q = p \<longleftrightarrow> (\<forall>r. minPort pm \<le> r \<and> r < p \<longrightarrow> r \<in> usedPorts pm)) \<and>
         (q = p \<longrightarrow> pm' = pm)))"
proof (intro conjI impI)
  assume "p \<notin> usedPorts pm"
  then show "releasePort p pm = pm" by (simp add: releasePort_def)
next
  assume held: "p \<in> usedPorts pm \<and> minPort pm \<le> p \<and> p \<le> maxPort pm"
  let ?pm1 = "releasePort p pm"
  have rel: "?pm1 = pm\<lparr>usedPorts := usedPorts pm - {p}\<rparr>"
    using held by (simp add: releasePort_def)
  have "allocatePort ?pm1 \<noteq> Inl NoPortAvailable"
    using held by (auto simp: allocatePort_Inl_iff rel)
  then obtain q pm' where alloc: "allocatePort ?pm1 = Inr (q, pm')"
    by (cases "allocatePort ?pm1") (auto simp: allocatePort_Inl_iff)
  then have q: "minPort pm \<le> q" "q \<le> maxPort pm" "q \<notin> usedPorts pm - {p}"
      "\<forall>r. minPort pm \<le> r \<and> r < q \<longrightarrow> r \<in> usedPorts pm - {p}"
      "pm' = ?pm1\<lparr>usedPorts := insert q (usedPorts pm - {p})\<rparr>"
    by (simp_all add: allocatePort_Inr_iff rel)
  have le: "q \<le> p"
  proof (rule ccontr)
    assume "\<not> q \<le> p"
    with held q(4) have "p \<in> usedPorts pm - {p}" by auto
    then show False by simp
  qed
  have iff: "q = p \<longleftrightarrow> (\<forall>r. minPort pm \<le> r \<and> r < p \<longrightarrow> r \<in> usedPorts pm)"
  proof
    assume "q = p"
    with q(4) show "\<forall>r. minPort pm \<le> r \<and> r < p \<longrightarrow> r \<in> usedPorts pm" by auto
  next
    assume all: "\<forall>r. minPort pm \<le> r \<and> r < p \<longrightarrow> r \<in> usedPorts pm"
    show "q = p"
    proof (rule ccontr)
      assume "q \<noteq> p"
      with le have "q < p" by simp
      with all q(1) have "q \<in> usedPorts pm" by simp
      with q(3) \<open>q \<noteq> p\<close> show False by simp
    qed
  qed
  have same: "q = p \<longrightarrow> pm' = pm"
    using q(5) held by (auto simp: rel insert_absorb)
  from alloc le iff same
  show "\<exists>q pm'. allocatePort (releasePort p pm) = Inr (q, pm') \<and> q \<le> p \<and>
         (q = p \<longleftrightarrow> (\<forall>r. minPort pm \<le> r \<and> r < p \<longrightarrow> r \<in> usedPorts pm)) \<and>
         (q = p \<longrightarrow> pm' = pm)"
    by blast
qed

theorem releasePort_noop_and_reuse_witness:
  "releasePort 3005 \<lparr>usedPorts = {3001, 3002}, minPort = 3001, maxPort = 4000\<rparr> =
     \<lparr>usedPorts = {3001, 3002}, minPort = 3001, maxPort = 4000\<rparr> \<and>
   allocatePort (releasePort 3002 \<lparr>usedPorts = {3001, 3002}, minPort = 3001, maxPort = 4000\<rparr>) =
     Inr (3002, \<lparr>usedPorts = {3001, 3002}, minPort = 3001, maxPort = 4000\<rparr>)"
proof -
  let ?pm = "\<lparr>usedPorts = {3001, 3002}, minPort = 3001, maxPort = 4000\<rparr>"
  have lower: "\<forall>r. minPort ?pm \<le> r \<and> r < 3002 \<longrightarrow> r \<in> usedPorts ?pm"
    by auto
  from releasePort_noop_and_reuse [of 3005 ?pm] have "releasePort 3005 ?pm = ?pm"
    by simp
  moreover from releasePort_noop_and_reuse [of 3002 ?pm] lower
  have "allocatePort (releasePort 3002 ?pm) = Inr (3002, ?pm)"
    by auto
  ultimately show ?thesis by simp
qed


subsection \<open>The recursive directory search\<close>

lemma orElse_simps [simp]:
  "orElse None b = b" "orElse (Some x) b = Some x"
  by (simp_all add: orElse_def)

lemma orElse_eq_None [simp]: "orElse a b = None \<longleftrightarrow> a = None \<and> b = None"
  by (cases a) simp_all

lemma allDirs_Dir:
  "set (allDirs root (Dir name sub # es)) =
     insert (root @ [name]) (set (allDirs (root @ [name]) sub) \<union> set (allDirs root es))"
  by simp

lemma allDirs_File: "allDirs root (File name content # es) = allDirs root es"
  by simp

lemma findLoop_Dir:
  "findLoop root (Dir name sub # es) acc =
     (if (if toLowerCase name = ''frontend'' then Some (root @ [name]) else fst acc) = None \<or>
         (if toLowerCase name = ''backend'' then Some (root @ [name]) else snd acc) = None
      then findLoop root es
             (orElse (if toLowerCase name = ''frontend'' then Some (root @ [name]) else fst acc)
                     (fst (findDirs (root @ [name]) sub)),
              orElse (if toLowerCase name = ''backend'' then Some (root @ [name]) else snd acc)
                     (snd (findDirs (root @ [name]) sub)))
      else findLoop root es
             (if toLowerCase name = ''frontend'' then Some (root @ [name]) else fst acc,
              if toLowerCase name = ''backend'' then Some (root @ [name]) else snd acc))"
  by (simp only: findLoop.simps Let_def)

lemma named_snoc: "named nm (root @ [name]) \<longleftrightarrow> toLowerCase name = nm"
  by (simp add: named_def)

lemma findDirs_found_iff:
  "(fst (findDirs root es) \<noteq> None \<longleftrightarrow> (\<exists>p \<in> set (allDirs root es). named ''frontend'' p)) \<and>
   (snd (findDirs root es) \<noteq> None \<longleftrightarrow> (\<exists>p \<in> set (allDirs root es). named ''backend'' p))"
  and findLoop_found_iff:
  "(fst (findLoop root es acc) \<noteq> None \<longleftrightarrow>
      fst acc \<noteq> None \<or> (\<exists>p \<in> set (allDirs root es). named ''frontend'' p)) \<and>
   (snd (findLoop root es acc) \<noteq> None \<longleftrightarrow>
      snd acc \<noteq> None \<or> (\<exists>p \<in> set (allDirs root es). named ''backend'' p))"
proof (induction root es and root es acc rule: findDirs_findLoop.induct)
  case (1 root entries)
  then show ?case by simp
next
  case (2 root acc)
  then show ?case by simp
next
  case (3 root name content es acc)
  then show ?case by simp
next
  case (4 root name sub es acc)
  let ?full = "root @ [name]"
  let ?f = "if toLowerCase name = ''frontend'' then Some ?full else fst acc"
  let ?b = "if toLowerCase name = ''backend'' then Some ?full else snd acc"
  note ih = 4
  show ?case
  proof (cases "?f = None \<or> ?b = None")
    case True
    note sub = ih(1) [OF refl refl refl True]
    note rest = ih(3) [OF refl refl refl True]
    have eq: "findLoop root (Dir name sub # es) acc =
        findLoop root es (orElse ?f (fst (findDirs ?full sub)), orElse ?b (snd (findDirs ?full sub)))"
      using True by (simp only: findLoop_Dir if_True)
    show ?thesis
      unfolding eq allDirs_Dir using sub rest
      by (cases "toLowerCase name = ''frontend''"; cases "toLowerCase name = ''backend''")
         (simp_all add: named_snoc bex_Un disj_ac del: findDirs.simps findLoop.simps)
  next
    case False
    note rest = ih(4) [OF refl refl refl False]
    have eq: "findLoop root (Dir name sub # es) acc = findLoop root es (?f, ?b)"
      using False by (simp only: findLoop_Dir if_False)
    show ?thesis
      unfolding eq allDirs_Dir using rest False
      by (cases "toLowerCase name = ''frontend''"; cases "toLowerCase name = ''backend''")
         (simp_all add: named_snoc bex_Un disj_ac del: findDirs.simps findLoop.simps)
  qed
qed

lemma allDirs_below:
  "p \<in> set (allDirs root es) \<Longrightarrow> strict_prefix root p"
  and entryDirs_below:
  "p \<in> set (entryDirs root e) \<Longrightarrow> strict_prefix root p"
proof (induction root es and root e arbitrary: p and p rule: allDirs_entryDirs.induct)
  case (4 root name sub)
  have step: "strict_prefix root (root @ [name])"
    by (simp add: strict_prefix_def)
  show ?case
  proof (cases "p = root @ [name]")
    case True
    with step show ?thesis by simp
  next
    case False
    with 4 have "strict_prefix (root @ [name]) p" by simp
    with step show ?thesis
      by (rule prefix_order.less_trans)
  qed
qed auto

lemma between_snoc:
  assumes "strict_prefix root q" "strict_prefix q p" "prefix (root @ [name]) p"
  shows "q = root @ [name] \<or> strict_prefix (root @ [name]) q"
proof -
  from assms(2,3) have "prefix q (root @ [name]) \<or> prefix (root @ [name]) q"
    by (meson prefix_order.less_imp_le prefix_same_cases)
  then show ?thesis
  proof
    assume "prefix q (root @ [name])"
    then have "q = root @ [name] \<or> prefix q root" by (simp add: prefix_snoc)
    with assms(1) show ?thesis by (auto simp: strict_prefix_def)
  next
    assume "prefix (root @ [name]) q"
    then show ?thesis by (auto simp: strict_prefix_def)
  qed
qed

lemma shallowMatch_File [simp]:
  "shallowMatch nm root (File name content # es) p = shallowMatch nm root es p"
  by (simp add: shallowMatch_def)

lemma shallowMatch_here:
  "toLowerCase name = nm \<Longrightarrow> shallowMatch nm root (Dir name sub # es) (root @ [name])"
  by (auto simp: shallowMatch_def named_snoc strict_prefix_def prefix_snoc)

lemma shallowMatch_rest:
  "shallowMatch nm root es p \<Longrightarrow> shallowMatch nm root (Dir name sub # es) p"
  by (simp add: shallowMatch_def)

lemma shallowMatch_sub:
  assumes "shallowMatch nm (root @ [name]) sub p" "toLowerCase name \<noteq> nm"
  shows "shallowMatch nm root (Dir name sub # es) p"
proof -
  from assms(1) have p: "p \<in> set (allDirs (root @ [name]) sub)" "named nm p"
    and above: "\<And>q. strict_prefix (root @ [name]) q \<Longrightarrow> strict_prefix q p \<Longrightarrow> \<not> named nm q"
    by (auto simp: shallowMatch_def)
  from p(1) have below: "prefix (root @ [name]) p"
    using allDirs_below by (auto simp: strict_prefix_def)
  have "\<not> named nm q" if "strict_prefix root q" "strict_prefix q p" for q
    using between_snoc [OF that below] above that(2) assms(2) by (auto simp: named_snoc)
  with p show ?thesis by (simp add: shallowMatch_def)
qed

lemma findDirs_shallow:
  "(\<forall>p. fst (findDirs root es) = Some p \<longrightarrow> shallowMatch ''frontend'' root es p) \<and>
   (\<forall>p. snd (findDirs root es) = Some p \<longrightarrow> shallowMatch ''backend'' root es p)"
  and findLoop_shallow:
  "(\<forall>p. fst (findLoop root es acc) = Some p \<longrightarrow>
        fst acc = Some p \<or> shallowMatch ''frontend'' root es p) \<and>
   (\<forall>p. snd (findLoop root es acc) = Some p \<longrightarrow>
        snd acc = Some p \<or> shallowMatch ''backend'' root es p)"
proof (induction root es and root es acc rule: findDirs_findLoop.induct)
  case (1 root entries)
  then show ?case by simp
next
  case (2 root acc)
  then show ?case by simp
next
  case (3 root name content es acc)
  then show ?case by simp
next
  case (4 root name sub es acc)
  let ?full = "root @ [name]"
  let ?f = "if toLowerCase name = ''frontend'' then Some ?full else fst acc"
  let ?b = "if toLowerCase name = ''backend'' then Some ?full else snd acc"
  note ih = 4
  show ?case
  proof (cases "?f = None \<or> ?b = None")
    case True
    note sub = ih(1) [OF refl refl refl True]
    note rest = ih(3) [OF refl refl refl True]
    have eq: "findLoop root (Dir name sub # es) acc =
        findLoop root es (orElse ?f (fst (findDirs ?full sub)), orElse ?b (snd (findDirs ?full sub)))"
      using True by (simp only: findLoop_Dir if_True)
    have f: "orElse ?f (fst (findDirs ?full sub)) = Some p \<Longrightarrow>
             fst acc = Some p \<or> shallowMatch ''frontend'' root (Dir name sub # es) p" for p
      using sub shallowMatch_here [of name "''frontend''" root sub es]
        shallowMatch_sub [of "''frontend''" root name sub p es]
      by (cases "toLowerCase name = ''frontend''"; cases "fst acc") (simp_all del: findDirs.simps)
    have b: "orElse ?b (snd (findDirs ?full sub)) = Some p \<Longrightarrow>
             snd acc = Some p \<or> shallowMatch ''backend'' root (Dir name sub # es) p" for p
      using sub shallowMatch_here [of name "''backend''" root sub es]
        shallowMatch_sub [of "''backend''" root name sub p es]
      by (cases "toLowerCase name = ''backend''"; cases "snd acc") (simp_all del: findDirs.simps)
    show ?thesis
      unfolding eq
    proof (intro conjI allI impI)
      fix p
      assume "fst (findLoop root es (orElse ?f (fst (findDirs ?full sub)), orElse ?b (snd (findDirs ?full sub)))) = Some p"
      with rest have "orElse ?f (fst (findDirs ?full sub)) = Some p \<or> shallowMatch ''frontend'' root es p"
        by simp
      then show "fst acc = Some p \<or> shallowMatch ''frontend'' root (Dir name sub # es) p"
        using f [of p] shallowMatch_rest [of "''frontend''" root es p name sub] by blast
    next
      fix p
      assume "snd (findLoop root es (orElse ?f (fst (findDirs ?full sub)), orElse ?b (snd (findDirs ?full sub)))) = Some p"
      with rest have "orElse ?b (snd (findDirs ?full sub)) = Some p \<or> shallowMatch ''backend'' root es p"
        by simp
      then show "snd acc = Some p \<or> shallowMatch ''backend'' root (Dir name sub # es) p"
        using b [of p] shallowMatch_rest [of "''backend''" root es p name sub] by blast
    qed
  next
    case False
    note rest = ih(4) [OF refl refl refl False]
    have eq: "findLoop root (Dir name sub # es) acc = findLoop root es (?f, ?b)"
      using False by (simp only: findLoop_Dir if_False)
    have f: "?f = Some p \<Longrightarrow>
             fst acc = Some p \<or> shallowMatch ''frontend'' root (Dir name sub # es) p" for p
      using shallowMatch_here [of name "''frontend''" root sub es]
      by (cases "toLowerCase name = ''frontend''") simp_all
    have b: "?b = Some p \<Longrightarrow>
             snd acc = Some p \<or> shallowMatch ''backend'' root (Dir name sub # es) p" for p
      using shallowMatch_here [of name "''backend''" root sub es]
      by (cases "toLowerCase name = ''backend''") simp_all
    show ?thesis
      unfolding eq
    proof (intro conjI allI impI)
      fix p
      assume "fst (findLoop root es (?f, ?b)) = Some p"
      with rest have "?f = Some p \<or> shallowMatch ''frontend'' root es p"
        by simp
      then show "fst acc = Some p \<or> shallowMatch ''frontend'' root (Dir name sub # es) p"
        using f [of p] shallowMatch_rest [of "''frontend''" root es p name sub] by blast
    next
      fix p
      assume "snd (findLoop root es (?f, ?b)) = Some p"
      with rest have "?b = Some p \<or> shallowMatch ''backend'' root es p"
        by simp
      then show "snd acc = Some p \<or> shallowMatch ''backend'' root (Dir name sub # es) p"
        using b [of p] shallowMatch_rest [of "''backend''" root es p name sub] by blast
    qed
  qed
qed

subsection \<open>Stopping a project\<close>

lemma length_delete_distinct:
  "distinct (map fst al) \<Longrightarrow> map_of al k = Some v \<Longrightarrow>
   Suc (length (AList.delete k al)) = length al"
proof (induction al)
  case Nil
  then show ?case by simp
next
  case (Cons a al)
  show ?case
  proof (cases "fst a = k")
    case True
    with Cons.prems have "k \<notin> fst ` set al" by auto
    then have "AList.delete k al = al" by simp
    with True show ?thesis by (cases a) simp
  next
    case False
    with Cons show ?thesis by (cases a) auto
  qed
qed

text \<open>
  C9. Stopping a key that the registry does not hold answers 404 and returns the state
  as it was. Stopping a key that it holds, with the status update succeeding, answers
  200, sends one SIGTERM to the stored process and removes the entry, one entry fewer in
  a registry with distinct keys; a second stop then answers 404 and changes nothing.
  When the status update of the first stop throws, the answer is 500, and the entry is
  removed all the same.
\<close>

theorem stopProject_idempotent:
  "(map_of (runningProcesses w) (projectKey u n) = None \<longrightarrow>
      stopProject u n dbOk w = (\<lparr>status = 404, reply = NotRunning\<rparr>, w)) \<and>
   (map_of (runningProcesses w) (projectKey u n) = Some proc \<and>
    distinct (map fst (runningProcesses w)) \<longrightarrow>
      fst (stopProject u n True w) = \<lparr>status = 200, reply = ProjectStopped\<rparr> \<and>
      fst (stopProject u n False w) = \<lparr>status = 500, reply = StopFailed\<rparr> \<and>
      runningProcesses (snd (stopProject u n dbOk w)) =
        AList.delete (projectKey u n) (runningProcesses w) \<and>
      map_of (runningProcesses (snd (stopProject u n dbOk w))) (projectKey u n) = None \<and>
      Suc (length (runningProcesses (snd (stopProject u n dbOk w)))) =
        length (runningProcesses w) \<and>
      actions (snd (stopProject u n dbOk w)) = actions w @ [Signalled (pid proc)] \<and>
      stopProject u n dbOk' (snd (stopProject u n dbOk w)) =
        (\<lparr>status = 404, reply = NotRunning\<rparr>, snd (stopProject u n dbOk w)))"
proof (intro conjI impI)
  assume "map_of (runningProcesses w) (projectKey u n) = None"
  then show "stopProject u n dbOk w = (\<lparr>status = 404, reply = NotRunning\<rparr>, w)"
    by (simp add: stopProject_def)
next
  assume held: "map_of (runningProcesses w) (projectKey u n) = Some proc \<and>
    distinct (map fst (runningProcesses w))"
  let ?k = "projectKey u n"
  have reg: "runningProcesses (snd (stopProject u n b w)) = AList.delete ?k (runningProcesses w)" for b
    using held by (simp add: stopProject_def Let_def)
  have gone: "map_of (runningProcesses (snd (stopProject u n b w))) ?k = None" for b
    by (simp add: reg delete_conv')
  show "fst (stopProject u n True w) = \<lparr>status = 200, reply = ProjectStopped\<rparr>"
    using held by (simp add: stopProject_def Let_def)
  show "fst (stopProject u n False w) = \<lparr>status = 500, reply = StopFailed\<rparr>"
    using held by (simp add: stopProject_def Let_def)
  show "runningProcesses (snd (stopProject u n dbOk w)) = AList.delete ?k (runningProcesses w)"
    by (rule reg)
  show "map_of (runningProcesses (snd (stopProject u n dbOk w))) ?k = None"
    by (rule gone)
  show "Suc (length (runningProcesses (snd (stopProject u n dbOk w)))) = length (runningProcesses w)"
    using held by (simp add: reg length_delete_distinct)
  show "actions (snd (stopProject u n dbOk w)) = actions w @ [Signalled (pid proc)]"
    using held by (simp add: stopProject_def Let_def)
  show "stopProject u n dbOk' (snd (stopProject u n dbOk w)) =
        (\<lparr>status = 404, reply = NotRunning\<rparr>, snd (stopProject u n dbOk w))"
    using gone [of dbOk] by (simp add: stopProject_def [of u n dbOk'])
qed

theorem stopProject_idempotent_witness:
  "stopProject ''u1'' ''app'' True
     \<lparr>ports = newPortManager, runningProcesses = [(''u1-app'', \<lparr>pid = 7, killed = False\<rparr>)],
      actions = [], uploads = {}, sites = Map.empty, projects = []\<rparr> =
     (\<lparr>status = 200, reply = ProjectStopped\<rparr>,
      \<lparr>ports = newPortManager, runningProcesses = [],
       actions = [Signalled 7], uploads = {}, sites = Map.empty, projects = []\<rparr>) \<and>
   stopProject ''u1'' ''app'' True
     \<lparr>ports = newPortManager, runningProcesses = [],
      actions = [Signalled 7], uploads = {}, sites = Map.empty, projects = []\<rparr> =
     (\<lparr>status = 404, reply = NotRunning\<rparr>,
      \<lparr>ports = newPortManager, runningProcesses = [],
       actions = [Signalled 7], uploads = {}, sites = Map.empty, projects = []\<rparr>)"
proof -
  let ?w = "\<lparr>ports = newPortManager, runningProcesses = [(''u1-app'', \<lparr>pid = 7, killed = False\<rparr>)],
      actions = [], uploads = {}, sites = Map.empty, projects = []\<rparr>"
  have key: "projectKey ''u1'' ''app'' = ''u1-app''" by (simp add: projectKey_def)
  have first: "stopProject ''u1'' ''app'' True ?w =
     (\<lparr>status = 200, reply = ProjectStopped\<rparr>,
      \<lparr>ports = newPortManager, runningProcesses = [],
       actions = [Signalled 7], uploads = {}, sites = Map.empty, projects = []\<rparr>)"
    by (simp add: stopProject_def key Let_def)
  from stopProject_idempotent [of ?w "''u1''" "''app''" True "\<lparr>pid = 7, killed = False\<rparr>" True]
  have "stopProject ''u1'' ''app'' True (snd (stopProject ''u1'' ''app'' True ?w)) =
        (\<lparr>status = 404, reply = NotRunning\<rparr>, snd (stopProject ''u1'' ''app'' True ?w))"
    by (simp add: key)
  with first show ?thesis by simp
qed

subsection \<open>Listing processes\<close>

lemma replaceFirst_prefix:
  "pat \<noteq> [] \<Longrightarrow> replaceFirst pat rep (pat @ s) = rep @ s"
proof (cases "pat @ s")
  case Nil
  then show ?thesis by simp
next
  case (Cons c cs)
  have "prefix pat (pat @ s)" by simp
  moreover have "drop (length pat) (pat @ s) = s" by simp
  ultimately show ?thesis
    unfolding Cons by simp
qed

lemma startsWith_same_length:
  "length u = length caller \<Longrightarrow> startsWith (projectKey u n) caller \<longleftrightarrow> u = caller"
  by (auto simp: startsWith_def projectKey_def prefix_def append_eq_append_conv)

text \<open>
  The server issues a user id in one place, the registration route, as
  \<open>Date.now().toString()\<close>: the decimal digits of the time in milliseconds, thirteen of
  them for any time from September 2001 to November 2286. All ids therefore have the
  same length.
\<close>

lemma toString_length:
  "10 ^ k \<le> n \<Longrightarrow> n < 10 ^ Suc k \<Longrightarrow> length (toString n) = Suc k"
proof (induction k arbitrary: n)
  case 0
  then show ?case by (simp add: toString.simps [of n])
next
  case (Suc k)
  have "(10::nat) \<le> 10 ^ Suc k" by simp
  with Suc.prems have big: "\<not> n < 10" by linarith
  from Suc.prems have "10 ^ k \<le> n div 10" "n div 10 < 10 ^ Suc k"
    by (simp_all add: less_mult_imp_div_less mult.commute div_le_mono2 le_div_geq)
  from Suc.IH [OF this] big show ?case by (simp add: toString.simps [of n])
qed

lemma issued_id_length:
  "1000000000000 \<le> now \<Longrightarrow> now < 10000000000000 \<Longrightarrow> length (toString now) = 13"
  using toString_length [of 12 now] by simp

text \<open>
  C10. The route returns, in registry order, one record for every entry whose key
  starts with the caller's id. With every owner's id as long as the caller's id, as the
  ids the server issues are, these are exactly the caller's own entries, each with its
  project name, pid and running flag, and no entry of another owner.
\<close>

theorem listProcesses_own_entries:
  assumes "\<forall>(u, n, p) \<in> set started. length u = length caller"
    and "runningProcesses w = registryOf started"
  shows "listProcesses caller w = ownProcesses caller started"
proof -
  have "map (\<lambda>(key, proc). (replaceFirst (caller @ ''-'') [] key, pid proc, \<not> killed proc))
          (filter (\<lambda>(key, proc). startsWith key caller) (registryOf started)) =
        ownProcesses caller started"
    using assms(1)
  proof (induction started)
    case Nil
    show ?case by (simp add: registryOf_def ownProcesses_def)
  next
    case (Cons a started)
    obtain u n p where a: "a = (u, n, p)" by (cases a)
    with Cons.prems have len: "length u = length caller" by simp
    from Cons have ih:
      "map (\<lambda>(key, proc). (replaceFirst (caller @ ''-'') [] key, pid proc, \<not> killed proc))
          (filter (\<lambda>(key, proc). startsWith key caller) (registryOf started)) =
        ownProcesses caller started"
      by simp
    have name: "replaceFirst (caller @ ''-'') [] (projectKey caller n) = n"
      using replaceFirst_prefix [of "caller @ ''-''" "[]" n] by (simp add: projectKey_def)
    show ?case
      using ih name startsWith_same_length [OF len, of n]
      by (auto simp: a registryOf_def ownProcesses_def)
  qed
  with assms(2) show ?thesis by (simp add: listProcesses_def)
qed

theorem listProcesses_own_entries_witness:
  "listProcesses ''u1''
     \<lparr>ports = newPortManager,
      runningProcesses = [(''u1-app'', \<lparr>pid = 7, killed = False\<rparr>), (''u2-shop'', \<lparr>pid = 9, killed = False\<rparr>)],
      actions = [], uploads = {}, sites = Map.empty, projects = []\<rparr> =
     [(''app'', 7, True)]"
  using listProcesses_own_entries
    [of "[(''u1'', ''app'', \<lparr>pid = 7, killed = False\<rparr>), (''u2'', ''shop'', \<lparr>pid = 9, killed = False\<rparr>)]"
        "''u1''"
        "\<lparr>ports = newPortManager,
      runningProcesses = [(''u1-app'', \<lparr>pid = 7, killed = False\<rparr>), (''u2-shop'', \<lparr>pid = 9, killed = False\<rparr>)],
      actions = [], uploads = {}, sites = Map.empty, projects = []\<rparr>"]
  by (simp add: registryOf_def ownProcesses_def projectKey_def)

subsection \<open>Starting the backend\<close>

lemma onEvent_actions: "actions (snd (onEvent key port e sw)) = actions (snd sw)"
  by (cases "(key, port, e, sw)" rule: onEvent.cases) (auto split: if_splits)

lemma onEvent_ports: "ports (snd (onEvent key port e sw)) = ports (snd sw)"
  by (cases "(key, port, e, sw)" rule: onEvent.cases) (auto split: if_splits)

lemma onEvent_registry:
  "runningProcesses (snd (onEvent key port e sw)) = runningProcesses (snd sw) \<or>
   runningProcesses (snd (onEvent key port e sw)) = AList.delete key (runningProcesses (snd sw))"
  by (cases "(key, port, e, sw)" rule: onEvent.cases) (auto split: if_splits)

lemma onEvent_distinct:
  "distinct (map fst (runningProcesses (snd sw))) \<Longrightarrow>
   distinct (map fst (runningProcesses (snd (onEvent key port e sw))))"
  using onEvent_registry [of key port e sw] by (auto simp: distinct_delete)

lemma onEvent_keys:
  "fst ` set (runningProcesses (snd (onEvent key port e sw))) \<subseteq>
   fst ` set (runningProcesses (snd sw))"
proof (cases "runningProcesses (snd (onEvent key port e sw)) = runningProcesses (snd sw)")
  case True
  then show ?thesis by simp
next
  case False
  with onEvent_registry [of key port e sw]
  have "runningProcesses (snd (onEvent key port e sw)) = AList.delete key (runningProcesses (snd sw))"
    by simp
  then show ?thesis by (simp only: dom_delete_subset)
qed

lemma awaitSettled_actions:
  "actions (snd (awaitSettled key port es sw)) = actions (snd sw)"
  by (induction es arbitrary: sw) (simp_all add: onEvent_actions)

lemma awaitSettled_ports:
  "ports (snd (awaitSettled key port es sw)) = ports (snd sw)"
  by (induction es arbitrary: sw) (simp_all add: onEvent_ports)

lemma awaitSettled_distinct:
  "distinct (map fst (runningProcesses (snd sw))) \<Longrightarrow>
   distinct (map fst (runningProcesses (snd (awaitSettled key port es sw))))"
  by (induction es arbitrary: sw) (simp_all add: onEvent_distinct)

lemma awaitSettled_keys:
  "fst ` set (runningProcesses (snd (awaitSettled key port es sw))) \<subseteq>
   fst ` set (runningProcesses (snd sw))"
proof (induction es arbitrary: sw)
  case Nil
  show ?case by simp
next
  case (Cons e es)
  from Cons [of "onEvent key port e sw"] onEvent_keys [of key port e sw]
  show ?case by auto
qed

lemma startBackendServer_snd:
  "snd (startBackendServer u n port npid evs w) =
   snd (awaitSettled (projectKey u n) port (map Child evs @ [GraceTimer, StartupTimer])
          (\<lparr>promise = Pending, startupTimeout = True\<rparr>, spawnBackend (projectKey u n) npid w))"
  by (simp add: startBackendServer_def split: prod.splits)

lemma startBackendServer_fst:
  "fst (startBackendServer u n port npid evs w) =
   promise (fst (awaitSettled (projectKey u n) port (map Child evs @ [GraceTimer, StartupTimer])
          (\<lparr>promise = Pending, startupTimeout = True\<rparr>, spawnBackend (projectKey u n) npid w)))"
  by (simp add: startBackendServer_def split: prod.splits)

text \<open>
  Inside \<open>startBackendServer\<close> the look-up of the key comes after \<open>spawn\<close>: called in a
  state whose map has the key, it spawns, then signals the stored process, then stores
  the new one in its place. Called in a state whose map does not have the key, it spawns
  and stores. The routes only ever call it in states of the second kind, as shown
  further down.
\<close>

lemma spawnBackend_replaces:
  assumes "map_of (runningProcesses w) key = Some old"
  shows "actions (spawnBackend key npid w) = actions w @ [Spawned npid, Signalled (pid old)]"
    and "map fst (runningProcesses (spawnBackend key npid w)) = map fst (runningProcesses w)"
    and "map_of (runningProcesses (spawnBackend key npid w)) key =
           Some \<lparr>pid = npid, killed = False\<rparr>"
proof -
  from assms have "key \<in> fst ` set (runningProcesses w)"
    by (metis domI dom_map_of_conv_image_fst)
  then show "map fst (runningProcesses (spawnBackend key npid w)) = map fst (runningProcesses w)"
    using assms by (simp add: spawnBackend_def Let_def update_keys)
  show "actions (spawnBackend key npid w) = actions w @ [Spawned npid, Signalled (pid old)]"
    using assms by (simp add: spawnBackend_def Let_def)
  show "map_of (runningProcesses (spawnBackend key npid w)) key =
           Some \<lparr>pid = npid, killed = False\<rparr>"
    using assms by (simp add: spawnBackend_def Let_def update_conv')
qed

lemma awaitSettled_outcome:
  "promise (fst (awaitSettled key port (map Child evs @ [GraceTimer, StartupTimer])
                  (\<lparr>promise = Pending, startupTimeout = b\<rparr>, w))) =
     (case find (decisive port) evs of Some (ErrorEvent msg) \<Rightarrow> Rejected msg | _ \<Rightarrow> Resolved)"
proof (induction evs arbitrary: b w)
  case Nil
  show ?case by (simp add: settle_def)
next
  case (Cons e evs)
  show ?case
  proof (cases e)
    case (Stdout chunk)
    with Cons [of b w] show ?thesis by (simp add: decisive_def settle_def)
  next
    case (Stderr chunk)
    with Cons [of b w] show ?thesis by (simp add: decisive_def)
  next
    case (Close code)
    with Cons [of False "w\<lparr>runningProcesses := AList.delete key (runningProcesses w)\<rparr>"]
    show ?thesis by (simp add: decisive_def)
  next
    case (ErrorEvent msg)
    then show ?thesis by (simp add: decisive_def settle_def)
  next
    case (EarlierClose code)
    with Cons [of b "w\<lparr>runningProcesses := AList.delete key (runningProcesses w)\<rparr>"]
    show ?thesis by (simp add: decisive_def)
  qed
qed

lemma awaitSettled_absent:
  "map_of (runningProcesses (snd sw)) key = None \<Longrightarrow>
   map_of (runningProcesses (snd (awaitSettled key port es sw))) key = None"
proof (induction es arbitrary: sw)
  case Nil
  then show ?case by simp
next
  case (Cons e es)
  from onEvent_registry [of key port e sw] Cons.prems
  have "map_of (runningProcesses (snd (onEvent key port e sw))) key = None"
    by (auto simp: delete_conv')
  with Cons.IH [of "onEvent key port e sw"] show ?case by simp
qed

lemma awaitSettled_exit:
  "exitsFirst port evs \<Longrightarrow>
   map_of (runningProcesses (snd (awaitSettled key port (map Child evs @ [GraceTimer, StartupTimer])
                  (\<lparr>promise = Pending, startupTimeout = b\<rparr>, w)))) key = None"
proof (induction evs arbitrary: b w)
  case Nil
  then show ?case by (simp add: exitsFirst_def)
next
  case (Cons e evs)
  show ?case
  proof (cases e)
    case (Stdout chunk)
    with Cons.prems have nd: "\<not> isReady port chunk" and "exitsFirst port evs"
      by (auto simp: exitsFirst_def decisive_def split: if_splits)
    with Cons.IH [of b w] Stdout show ?thesis by simp
  next
    case (Stderr chunk)
    with Cons.prems have "exitsFirst port evs"
      by (auto simp: exitsFirst_def decisive_def split: if_splits)
    with Cons.IH [of b w] Stderr show ?thesis by simp
  next
    case (Close code)
    let ?w = "w\<lparr>runningProcesses := AList.delete key (runningProcesses w)\<rparr>"
    have "map_of (runningProcesses (snd (\<lparr>promise = Pending, startupTimeout = False\<rparr>, ?w))) key = None"
      by (simp add: delete_conv')
    from awaitSettled_absent [OF this, of port "map Child evs @ [GraceTimer, StartupTimer]"] Close
    show ?thesis by simp
  next
    case (ErrorEvent msg)
    with Cons.prems show ?thesis by (simp add: exitsFirst_def decisive_def)
  next
    case (EarlierClose code)
    let ?w = "w\<lparr>runningProcesses := AList.delete key (runningProcesses w)\<rparr>"
    have "map_of (runningProcesses (snd (\<lparr>promise = Pending, startupTimeout = b\<rparr>, ?w))) key = None"
      by (simp add: delete_conv')
    from awaitSettled_absent [OF this, of port "map Child evs @ [GraceTimer, StartupTimer]"]
      EarlierClose
    show ?thesis by simp
  qed
qed

lemma startBackendServer_outcome:
  "fst (startBackendServer u n port npid evs w) =
     (case find (decisive port) evs of Some (ErrorEvent msg) \<Rightarrow> Rejected msg | _ \<Rightarrow> Resolved)"
  by (simp add: startBackendServer_fst awaitSettled_outcome)

lemma startBackendServer_ports:
  "ports (snd (startBackendServer u n port npid evs w)) = ports w"
  by (simp add: startBackendServer_snd awaitSettled_ports spawnBackend_def Let_def split: option.splits)

subsection \<open>The allocator during a deployment\<close>

lemma portLedger_tuple:
  "portLedger w (res, l, w') =
     (case allocatedPort l of
        None \<Rightarrow> ports w' = ports w
      | Some p \<Rightarrow> allocatePort (ports w) = Inr (p, ports w'))"
  by (simp add: portLedger_def split: option.splits)

lemma stageCommit_ports:
  "allocatedPort (fst (snd (stageCommit v req out upload name pkg port l w))) = allocatedPort l \<and>
   ports (snd (snd (stageCommit v req out upload name pkg port l w))) = ports w"
  by (simp add: stageCommit_def Let_def)

lemma stageRun_ports:
  "allocatedPort (fst (snd (stageRun v req out upload name pkg port l w))) = allocatedPort l \<and>
   ports (snd (snd (stageRun v req out upload name pkg port l w))) = ports w"
proof (cases v)
  case Recursive
  then show ?thesis by (simp add: stageRun_def stageCommit_ports)
next
  case Supervised
  obtain pr w1 where start:
    "startBackendServer (reqUser req) name port (newPid out) (backendEvents out) w = (pr, w1)"
    by (cases "startBackendServer (reqUser req) name port (newPid out) (backendEvents out) w")
  with startBackendServer_ports [of "reqUser req" name port "newPid out" "backendEvents out" w]
  have w1: "ports w1 = ports w" by simp
  show ?thesis
    using Supervised start w1
      stageCommit_ports [of v req out upload name pkg port l w1]
    by (cases pr) (simp_all add: stageRun_def)
qed

lemma stageRun_ledger:
  "allocatePort (ports w0) = Inr (p, ports w) \<Longrightarrow> allocatedPort l = Some p \<Longrightarrow>
   portLedger w0 (stageRun v req out upload name pkg port l w)"
  using stageRun_ports [of v req out upload name pkg port l w]
  by (simp add: portLedger_def)

lemma stageConfigure_ledger:
  assumes "allocatedPort l = None"
  shows "portLedger w (stageConfigure v req out upload name pkg ff bf l w)"
proof (cases "allocatePort (ports w)")
  case (Inl e)
  with assms show ?thesis by (simp add: stageConfigure_def portLedger_tuple)
next
  case (Inr r)
  obtain port pm where r: "r = (port, pm)" by (cases r)
  have run: "portLedger w (stageRun v req out upload name pkg port (l\<lparr>allocatedPort := Some port\<rparr>) w')"
    if "ports w' = pm" for w'
    using that Inr r by (intro stageRun_ledger) simp_all
  show ?thesis
    using Inr r run
    by (simp add: stageConfigure_def Let_def portLedger_tuple split: option.splits)
qed

lemma portLedger_sites:
  "portLedger (w\<lparr>sites := s\<rparr>) r = portLedger w r"
  by (simp add: portLedger_def split: option.splits)

lemma stageValidate_ledger:
  assumes "allocatedPort l = None"
  shows "portLedger w (stageValidate v req out upload name es l w)"
  using assms
    stageConfigure_ledger [OF assms, of "w\<lparr>sites := s\<rparr>" v req out upload name for s]
  by (simp add: stageValidate_def portLedger_tuple portLedger_sites
           split: prod.splits option.splits)

lemma stageExtract_ledger:
  assumes "allocatedPort l = None"
  shows "portLedger w (stageExtract v req out upload name l w)"
proof (cases "createProjectDirectory name w")
  case (Inl e)
  with assms show ?thesis by (simp add: stageExtract_def portLedger_tuple)
next
  case (Inr w1)
  then have w1: "w1 = w\<lparr>sites := (sites w)(name \<mapsto> [])\<rparr>"
    by (auto simp: createProjectDirectory_def split: option.splits)
  have l1: "allocatedPort (l\<lparr>projectPath := Some name\<rparr>) = None"
    using assms by simp
  show ?thesis
    using Inr assms stageValidate_ledger [OF l1, of "w1\<lparr>sites := s\<rparr>" v req out upload name for s]
    by (simp add: stageExtract_def Let_def portLedger_tuple w1 portLedger_sites
             split: option.splits)
qed

lemma deployTry_ledger: "portLedger w (deployTry v req out w)"
  using stageExtract_ledger [of "\<lparr>tempFilePath = Some upload, projectPath = None, allocatedPort = None\<rparr>"
      w v req out upload for upload]
  by (simp add: deployTry_def Let_def portLedger_tuple split: option.splits)

lemma deployCatch_ports:
  "ports (deployCatch v req l w) =
     (case allocatedPort l of
        Some port \<Rightarrow> if port \<noteq> 0 then releasePort port (ports w) else ports w
      | None \<Rightarrow> ports w)"
  by (cases v) (simp_all add: deployCatch_def Let_def split: option.splits)

lemma release_after_allocate:
  "allocatePort pm = Inr (p, pm') \<Longrightarrow> releasePort p pm' = pm"
  by (auto simp: allocatePort_Inr_iff releasePort_def)

lemma deploy_failure_ports:
  assumes "0 < minPort (ports w)"
    and "deployTry v req out w = (Threw e, l, w')"
  shows "ports (deployCatch v req l w') = ports w"
proof (cases "allocatedPort l")
  case None
  with deployTry_ledger [of w v req out] assms(2) show ?thesis
    by (simp add: deployCatch_ports portLedger_tuple)
next
  case (Some p)
  with deployTry_ledger [of w v req out] assms(2)
  have alloc: "allocatePort (ports w) = Inr (p, ports w')"
    by (simp add: portLedger_tuple)
  then have "minPort (ports w) \<le> p" by (simp add: allocatePort_Inr_iff)
  with assms(1) have "p \<noteq> 0" by simp
  with Some release_after_allocate [OF alloc] show ?thesis
    by (simp add: deployCatch_ports)
qed

subsection \<open>Evaluating the sample deployment\<close>

lemmas deploy_defs =
  deployDynamic_def deployTry_def deployCatch_def stageExtract_def stageValidate_def
  stageConfigure_def stageRun_def stageCommit_def createProjectDirectory_def locateDirs_def
  readManifest_def envWriteNeeded_def syncEnv_def detectMongo_def

lemmas sample_defs =
  sampleWorld_def sampleRequest_def sampleOutcomes_def sampleTree_def lowerChar_def

lemma trim_app [simp]: "trim ''app'' = ''app''"
  by (simp add: trim_def whiteSpace_def trimStart.simps)

lemma lower_frontend [simp]: "toLowerCase ''frontend'' = ''frontend''"
  by (simp add: lowerChar_def)

lemma lower_backend [simp]: "toLowerCase ''backend'' = ''backend''"
  by (simp add: lowerChar_def)

lemma toString_3001 [simp]: "toString 3001 = ''3001''"
  by (simp add: toString.simps digitChar_def)

lemma allocate_first [simp]:
  "allocatePort newPortManager = Inr (3001, newPortManager\<lparr>usedPorts := {3001}\<rparr>)"
  by (simp add: allocatePort_def newPortManager_def scanPorts.simps)

lemma sample_env [simp]:
  "syncEnvWrite 3001 None =
     Some (''VITE_API_URL=http://localhost:3001'' @ [CHR 0x0A] @
           ''BACKEND_ADRESSE=http://localhost:3001'' @ [CHR 0x0A])"
  by (simp add: syncEnvWrite_def needsEnvUpdate_def)

lemma sample_crash_start:
  "startBackendServer ''u1'' ''app'' 3001 42 crashEvents w =
     (Resolved, w\<lparr>actions := actions w @ [Spawned 42] @
                      (case map_of (runningProcesses w) ''u1-app'' of
                         Some old \<Rightarrow> [Signalled (pid old)] | None \<Rightarrow> []),
                   runningProcesses := AList.delete ''u1-app'' (runningProcesses w)\<rparr>)"
  by (simp add: crashEvents_def startBackendServer_def spawnBackend_def projectKey_def
        settle_def Let_def delete_update_same split: option.splits)

text \<open>
  C2. A backend that exits with code 1 before any readiness signal does not make the
  start fail; here \<open>npm start\<close> finds no start script, writes its error to stderr and
  exits. The \<open>close\<close> handler only clears the 30 s timer and deletes the registry entry;
  five seconds later the timer resolves the promise. The deployment then stores the
  project with status \<open>active\<close> and answers 200, the port stays held, and the registry
  holds no process. The code around it aims at the opposite: the route stores the status
  under the comment "Maintenant vraiment actif !", \<open>executeCommand\<close> in the same file
  rejects when a command closes with a non-zero code, and the start has a 30 s timer
  that rejects.
\<close>

theorem crash_before_ready_commits:
  "fst (startBackendServer ''u1'' ''app'' 3001 42 crashEvents sampleWorld) = Resolved \<and>
   fst (deployDynamic Supervised sampleRequest
          (sampleOutcomes\<lparr>backendEvents := crashEvents\<rparr>) sampleWorld) =
     \<lparr>status = 200,
      reply = Deployed \<lparr>owner = ''u1'', pname = ''app'', ptype = ''dynamic'',
                        pstatus = ''active'', pport = Some 3001, usesMongoDB = False\<rparr>\<rparr> \<and>
   usedPorts (ports (snd (deployDynamic Supervised sampleRequest
                  (sampleOutcomes\<lparr>backendEvents := crashEvents\<rparr>) sampleWorld))) = {3001} \<and>
   runningProcesses (snd (deployDynamic Supervised sampleRequest
                  (sampleOutcomes\<lparr>backendEvents := crashEvents\<rparr>) sampleWorld)) = [] \<and>
   actions (snd (deployDynamic Supervised sampleRequest
                  (sampleOutcomes\<lparr>backendEvents := crashEvents\<rparr>) sampleWorld)) = [Spawned 42]"
  by (simp add: sample_crash_start deploy_defs sample_defs needsEnvUpdate_def Let_def)

text \<open>
  The exit code plays no part in any start: the promise is rejected exactly when the
  first deciding event is an \<open>error\<close> event, and a child that closes before any deciding
  event only loses its registry entry.
\<close>

lemma startBackendServer_ignores_exit:
  "fst (startBackendServer u n port npid evs w) =
     (case find (decisive port) evs of Some (ErrorEvent msg) \<Rightarrow> Rejected msg | _ \<Rightarrow> Resolved) \<and>
   ((\<forall>e \<in> set evs. \<not> decisive port e) \<longrightarrow>
      fst (startBackendServer u n port npid evs w) = Resolved) \<and>
   (exitsFirst port evs \<longrightarrow>
      map_of (runningProcesses (snd (startBackendServer u n port npid evs w))) (projectKey u n) = None)"
proof (intro conjI impI)
  show outcome: "fst (startBackendServer u n port npid evs w) =
     (case find (decisive port) evs of Some (ErrorEvent msg) \<Rightarrow> Rejected msg | _ \<Rightarrow> Resolved)"
    by (rule startBackendServer_outcome)
  show "fst (startBackendServer u n port npid evs w) = Resolved"
    if "\<forall>e \<in> set evs. \<not> decisive port e"
  proof -
    from that have "find (decisive port) evs = None" by (simp add: find_None_iff)
    with outcome show ?thesis by simp
  qed
  show "map_of (runningProcesses (snd (startBackendServer u n port npid evs w))) (projectKey u n) = None"
    if "exitsFirst port evs"
    using that by (simp add: startBackendServer_snd awaitSettled_exit)
qed

subsection \<open>Failures that leave something behind\<close>

lemma release_first [simp]:
  "releasePort 3001 (newPortManager\<lparr>usedPorts := {3001}\<rparr>) = newPortManager"
  by (simp add: releasePort_def newPortManager_def)

lemma sample_error_start:
  "startBackendServer ''u1'' ''app'' 3001 42 [ErrorEvent ''spawn failed''] w =
     (Rejected ''spawn failed'',
      w\<lparr>actions := actions w @ [Spawned 42] @
                      (case map_of (runningProcesses w) ''u1-app'' of
                         Some old \<Rightarrow> [Signalled (pid old)] | None \<Rightarrow> []),
        runningProcesses := AList.update ''u1-app'' \<lparr>pid = 42, killed = False\<rparr> (runningProcesses w)\<rparr>)"
  by (simp add: startBackendServer_def spawnBackend_def projectKey_def settle_def Let_def
        split: option.splits)

lemma trim_app_space: "trim ''app '' = ''app''"
  by (simp add: trim_def whiteSpace_def trimStart.simps)

text \<open>
  When the start does fail, on an \<open>error\<close> event, the \<open>catch\<close> block unlinks the upload,
  releases the port and signals the process it finds under the key built from the name
  as it was sent. Sent as \<open>app\<close>, the handle of the failed start is removed; sent with a
  trailing space, the handle, stored under the trimmed name, stays in the map. The
  project directory stays in both cases.
\<close>

lemma failed_start_rollback:
  "deployDynamic Supervised sampleRequest
     (sampleOutcomes\<lparr>backendEvents := [ErrorEvent ''spawn failed'']\<rparr>) sampleWorld =
     (\<lparr>status = 500, reply = DeployFailed (BackendStartFailed ''spawn failed'')\<rparr>,
      sampleWorld\<lparr>actions := [Spawned 42, Signalled 42], uploads := {},
        sites := [''app'' \<mapsto>
          [Dir ''frontend''
             [File ''package.json'' ''{}'',
              File ''.env'' (''VITE_API_URL=http://localhost:3001'' @ [CHR 0x0A] @
                            ''BACKEND_ADRESSE=http://localhost:3001'' @ [CHR 0x0A])],
           Dir ''backend'' [File ''package.json'' ''{}'']]]\<rparr>) \<and>
   runningProcesses (snd (deployDynamic Supervised (sampleRequest\<lparr>reqName := Some ''app ''\<rparr>)
     (sampleOutcomes\<lparr>backendEvents := [ErrorEvent ''spawn failed'']\<rparr>) sampleWorld)) =
     [(''u1-app'', \<lparr>pid = 42, killed = False\<rparr>)]"
  by (simp add: sample_error_start trim_app_space deploy_defs sample_defs needsEnvUpdate_def
        projectKey_def Let_def)

lemma sample_install_failure:
  "deployDynamic Supervised sampleRequest (sampleOutcomes\<lparr>installBackend := Exited 1\<rparr>) sampleWorld =
     (\<lparr>status = 500, reply = DeployFailed BackendDepsFailed\<rparr>,
      sampleWorld\<lparr>uploads := {},
        sites := [''app'' \<mapsto>
          [Dir ''frontend''
             [File ''package.json'' ''{}'',
              File ''.env'' (''VITE_API_URL=http://localhost:3001'' @ [CHR 0x0A] @
                            ''BACKEND_ADRESSE=http://localhost:3001'' @ [CHR 0x0A])],
           Dir ''backend'' [File ''package.json'' ''{}'']]]\<rparr>)"
  by (simp add: deploy_defs sample_defs needsEnvUpdate_def projectKey_def Let_def)

text \<open>
  C1. The supervised copy of the route is the one with an install stage. When
  \<open>npm install\<close> in the backend exits with code 1, the route answers 500 with the
  dependency error, the port is released and the upload is unlinked, but the project
  directory stays on disk with both subtrees and the written \<open>.env\<close>: its \<open>catch\<close> block
  has no \<open>fs.rm(projectPath)\<close>, which the \<open>catch\<close> block of server/routes/hosting.js has.
  A second attempt under the same name then fails in \<open>createProjectDirectory\<close>.
\<close>

theorem install_failure_keeps_directory:
  "fst (deployDynamic Supervised sampleRequest
          (sampleOutcomes\<lparr>installBackend := Exited 1\<rparr>) sampleWorld) =
     \<lparr>status = 500, reply = DeployFailed BackendDepsFailed\<rparr> \<and>
   ports (snd (deployDynamic Supervised sampleRequest
          (sampleOutcomes\<lparr>installBackend := Exited 1\<rparr>) sampleWorld)) = newPortManager \<and>
   uploads (snd (deployDynamic Supervised sampleRequest
          (sampleOutcomes\<lparr>installBackend := Exited 1\<rparr>) sampleWorld)) = {} \<and>
   sites (snd (deployDynamic Supervised sampleRequest
          (sampleOutcomes\<lparr>installBackend := Exited 1\<rparr>) sampleWorld)) ''app'' =
     Some [Dir ''frontend''
             [File ''package.json'' ''{}'',
              File ''.env'' (''VITE_API_URL=http://localhost:3001'' @ [CHR 0x0A] @
                            ''BACKEND_ADRESSE=http://localhost:3001'' @ [CHR 0x0A])],
           Dir ''backend'' [File ''package.json'' ''{}'']] \<and>
   fst (deployDynamic Supervised sampleRequest sampleOutcomes
          (snd (deployDynamic Supervised sampleRequest
                  (sampleOutcomes\<lparr>installBackend := Exited 1\<rparr>) sampleWorld))) =
     \<lparr>status = 500, reply = DeployFailed (ProjectExists ''app'')\<rparr>"
  unfolding sample_install_failure
  by (simp add: deployDynamic_def deployTry_def stageExtract_def createProjectDirectory_def
        deployCatch_def projectKey_def sample_defs Let_def)

text \<open>
  C8. A request that carries an upload but a blank project name, or a name the caller
  already uses, is answered from inside the \<open>try\<close> block before \<open>tempFilePath\<close> is
  assigned: the state is returned as it was, the uploaded file still in the uploads
  directory. Both copies of the route have these early returns.
\<close>

theorem early_return_keeps_upload:
  "deployDynamic Supervised (sampleRequest\<lparr>reqName := Some ''  ''\<rparr>) sampleOutcomes sampleWorld =
     (\<lparr>status = 400, reply = NameRequired\<rparr>, sampleWorld) \<and>
   deployDynamic Recursive (sampleRequest\<lparr>reqName := Some ''  ''\<rparr>) sampleOutcomes sampleWorld =
     (\<lparr>status = 400, reply = NameRequired\<rparr>, sampleWorld) \<and>
   deployDynamic Supervised sampleRequest sampleOutcomes
     (sampleWorld\<lparr>projects :=
        [\<lparr>owner = ''u1'', pname = ''app'', ptype = ''dynamic'', pstatus = ''active'',
          pport = Some 3001, usesMongoDB = False\<rparr>]\<rparr>) =
     (\<lparr>status = 409, reply = NameTaken\<rparr>,
      sampleWorld\<lparr>projects :=
        [\<lparr>owner = ''u1'', pname = ''app'', ptype = ''dynamic'', pstatus = ''active'',
          pport = Some 3001, usesMongoDB = False\<rparr>]\<rparr>) \<and>
   ''uploads/1-app.zip'' \<in> uploads sampleWorld"
  by (simp add: deployDynamic_def deployTry_def sample_defs trim_def whiteSpace_def
        trimStart.simps Let_def)

subsection \<open>The structure check in a deployment\<close>

lemma topLevelDirs_found_iff:
  "(fst (topLevelDirs root es acc) \<noteq> None \<longleftrightarrow>
      fst acc \<noteq> None \<or> (\<exists>name sub. Dir name sub \<in> set es \<and> toLowerCase name = ''frontend'')) \<and>
   (snd (topLevelDirs root es acc) \<noteq> None \<longleftrightarrow>
      snd acc \<noteq> None \<or> (\<exists>name sub. Dir name sub \<in> set es \<and> toLowerCase name = ''backend''))"
proof (induction root es acc rule: topLevelDirs.induct)
  case (1 root acc)
  show ?case by simp
next
  case (2 root name content es acc)
  then show ?case by simp
next
  case (3 root name sub es acc)
  show ?case
  proof (cases "toLowerCase name = ''frontend''")
    case True
    with 3(1) show ?thesis by auto
  next
    case False
    show ?thesis
    proof (cases "toLowerCase name = ''backend''")
      case True
      with False 3(2) show ?thesis by auto
    next
      case nb: False
      with False 3(3) show ?thesis by auto
    qed
  qed
qed

lemma top_level_paths:
  "(\<exists>p \<in> set (allDirs [] es). length p = 1 \<and> named nm p) \<longleftrightarrow>
   (\<exists>name sub. Dir name sub \<in> set es \<and> toLowerCase name = nm)"
proof (induction es)
  case Nil
  show ?case by simp
next
  case (Cons e es)
  show ?case
  proof (cases e)
    case (File name content)
    with Cons show ?thesis by simp
  next
    case (Dir name sub)
    have deep: "length p \<noteq> 1" if "p \<in> set (allDirs [name] sub)" for p
    proof -
      from allDirs_below [OF that] have "length [name] < length p"
        by (metis prefix_length_less)
      then show ?thesis by simp
    qed
    have "(\<exists>p \<in> set (allDirs [] (e # es)). length p = 1 \<and> named nm p) \<longleftrightarrow>
          toLowerCase name = nm \<or> (\<exists>p \<in> set (allDirs [] es). length p = 1 \<and> named nm p)"
      using deep by (auto simp: Dir named_def)
    with Cons show ?thesis by (auto simp: Dir)
  qed
qed

lemma locateDirs_Supervised:
  "(fst (locateDirs Supervised es) \<noteq> None \<longleftrightarrow>
      (\<exists>p \<in> set (allDirs [] es). length p = 1 \<and> named ''frontend'' p)) \<and>
   (snd (locateDirs Supervised es) \<noteq> None \<longleftrightarrow>
      (\<exists>p \<in> set (allDirs [] es). length p = 1 \<and> named ''backend'' p))"
  unfolding top_level_paths
  using topLevelDirs_found_iff [of "[]" es "(None, None)"]
  by (simp add: locateDirs_def)

lemma structure_failure:
  assumes "reqFile req = Some upload" "upload \<noteq> []"
    and "reqName req = Some raw" "raw \<noteq> []" "trim raw \<noteq> []"
    and "\<forall>p \<in> set (projects w). \<not> (owner p = reqUser req \<and> pname p = trim raw)"
    and "sites w (trim raw) = None"
    and "archive out = Some es"
    and "fst (locateDirs v es) = None \<or> snd (locateDirs v es) = None"
  shows "deployTry v req out w =
           (Threw InvalidStructure,
            \<lparr>tempFilePath = Some upload, projectPath = Some (trim raw), allocatedPort = None\<rparr>,
            w\<lparr>sites := (sites w)(trim raw \<mapsto> [Dir ''temp_extract'' es])\<rparr>)"
proof -
  have "stageValidate v req out upload name es l w' = (Threw InvalidStructure, l, w')"
    for name l w'
    using assms(9) by (cases "locateDirs v es") (auto simp: stageValidate_def split: option.splits)
  with assms(1-8) show ?thesis
    by (simp add: deployTry_def stageExtract_def createProjectDirectory_def Let_def)
qed

lemma absent_delete:
  "map_of al k = None \<Longrightarrow> AList.delete k al = al"
  by (rule delete_id) (simp add: map_of_eq_None_iff)

text \<open>
  C4, as amended. In server/routes/hosting.js the structure check (\<open>findDirs\<close>) finds a
  frontend directory exactly when some directory of the extracted tree, at any depth,
  has a name that lower-cases to \<open>frontend\<close>, and what it returns is such a directory with
  no ancestor of that name (likewise for \<open>backend\<close>); in the supervised copy the check finds
  the two directories exactly when they are entries of the top level. In both copies a
  deployment that passes validation, under a project name that is a single path
  component (in a \<open>hosted-sites/dynamic\<close> whose entries have such names), and whose
  check misses one of the two directories answers 500 with the structure error,
  allocates no port, spawns no process, adds no registry entry and unlinks the upload;
  in server/routes/hosting.js nothing else changes, so no project directory is left.
\<close>

theorem structure_check_and_rollback:
  "(fst (locateDirs Recursive es) \<noteq> None \<longleftrightarrow> (\<exists>p \<in> set (allDirs [] es). named ''frontend'' p)) \<and>
   (snd (locateDirs Recursive es) \<noteq> None \<longleftrightarrow> (\<exists>p \<in> set (allDirs [] es). named ''backend'' p)) \<and>
   (\<forall>p. fst (locateDirs Recursive es) = Some p \<longrightarrow> shallowMatch ''frontend'' [] es p) \<and>
   (\<forall>p. snd (locateDirs Recursive es) = Some p \<longrightarrow> shallowMatch ''backend'' [] es p) \<and>
   (fst (locateDirs Supervised es) \<noteq> None \<longleftrightarrow>
      (\<exists>p \<in> set (allDirs [] es). length p = 1 \<and> named ''frontend'' p)) \<and>
   (snd (locateDirs Supervised es) \<noteq> None \<longleftrightarrow>
      (\<exists>p \<in> set (allDirs [] es). length p = 1 \<and> named ''backend'' p)) \<and>
   (reqFile req = Some upload \<and> upload \<noteq> [] \<and>
    reqName req = Some raw \<and> raw \<noteq> [] \<and> trim raw \<noteq> [] \<and>
    (\<forall>p \<in> set (projects w). \<not> (owner p = reqUser req \<and> pname p = trim raw)) \<and>
    plainName (trim raw) \<and> (\<forall>name. sites w name \<noteq> None \<longrightarrow> plainName name) \<and>
    sites w (trim raw) = None \<and> archive out = Some es \<and>
    (fst (locateDirs v es) = None \<or> snd (locateDirs v es) = None) \<longrightarrow>
      fst (deployDynamic v req out w) = \<lparr>status = 500, reply = DeployFailed InvalidStructure\<rparr> \<and>
      ports (snd (deployDynamic v req out w)) = ports w \<and>
      uploads (snd (deployDynamic v req out w)) = uploads w - {upload} \<and>
      projects (snd (deployDynamic v req out w)) = projects w \<and>
      runningProcesses (snd (deployDynamic v req out w)) =
        (case v of
           Recursive \<Rightarrow> runningProcesses w
         | Supervised \<Rightarrow> AList.delete (projectKey (reqUser req) raw) (runningProcesses w)) \<and>
      actions (snd (deployDynamic v req out w)) =
        (case v of
           Recursive \<Rightarrow> actions w
         | Supervised \<Rightarrow>
             actions w @
             (case map_of (runningProcesses w) (projectKey (reqUser req) raw) of
                Some proc \<Rightarrow> [Signalled (pid proc)]
              | None \<Rightarrow> [])) \<and>
      (v = Recursive \<longrightarrow> sites (snd (deployDynamic v req out w)) = sites w))"
proof -
  have rec: "(fst (locateDirs Recursive es) \<noteq> None \<longleftrightarrow> (\<exists>p \<in> set (allDirs [] es). named ''frontend'' p)) \<and>
   (snd (locateDirs Recursive es) \<noteq> None \<longleftrightarrow> (\<exists>p \<in> set (allDirs [] es). named ''backend'' p))"
    using findDirs_found_iff [of "[]" es] by (simp only: locateDirs_def variant.case)
  have shallow: "(\<forall>p. fst (locateDirs Recursive es) = Some p \<longrightarrow> shallowMatch ''frontend'' [] es p) \<and>
   (\<forall>p. snd (locateDirs Recursive es) = Some p \<longrightarrow> shallowMatch ''backend'' [] es p)"
    using findDirs_shallow [of "[]" es] by (simp only: locateDirs_def variant.case)
  have deploy: "reqFile req = Some upload \<and> upload \<noteq> [] \<and>
    reqName req = Some raw \<and> raw \<noteq> [] \<and> trim raw \<noteq> [] \<and>
    (\<forall>p \<in> set (projects w). \<not> (owner p = reqUser req \<and> pname p = trim raw)) \<and>
    plainName (trim raw) \<and> (\<forall>name. sites w name \<noteq> None \<longrightarrow> plainName name) \<and>
    sites w (trim raw) = None \<and> archive out = Some es \<and>
    (fst (locateDirs v es) = None \<or> snd (locateDirs v es) = None) \<longrightarrow>
      fst (deployDynamic v req out w) = \<lparr>status = 500, reply = DeployFailed InvalidStructure\<rparr> \<and>
      ports (snd (deployDynamic v req out w)) = ports w \<and>
      uploads (snd (deployDynamic v req out w)) = uploads w - {upload} \<and>
      projects (snd (deployDynamic v req out w)) = projects w \<and>
      runningProcesses (snd (deployDynamic v req out w)) =
        (case v of
           Recursive \<Rightarrow> runningProcesses w
         | Supervised \<Rightarrow> AList.delete (projectKey (reqUser req) raw) (runningProcesses w)) \<and>
      actions (snd (deployDynamic v req out w)) =
        (case v of
           Recursive \<Rightarrow> actions w
         | Supervised \<Rightarrow>
             actions w @
             (case map_of (runningProcesses w) (projectKey (reqUser req) raw) of
                Some proc \<Rightarrow> [Signalled (pid proc)]
              | None \<Rightarrow> [])) \<and>
      (v = Recursive \<longrightarrow> sites (snd (deployDynamic v req out w)) = sites w)"
    (is "?H \<longrightarrow> ?C")
  proof (rule impI)
    assume h: ?H
    from h have thrown: "deployTry v req out w =
           (Threw InvalidStructure,
            \<lparr>tempFilePath = Some upload, projectPath = Some (trim raw), allocatedPort = None\<rparr>,
            w\<lparr>sites := (sites w)(trim raw \<mapsto> [Dir ''temp_extract'' es])\<rparr>)"
      by (intro structure_failure) simp_all
    then have dd: "deployDynamic v req out w =
           (\<lparr>status = 500, reply = DeployFailed InvalidStructure\<rparr>,
            deployCatch v req
              \<lparr>tempFilePath = Some upload, projectPath = Some (trim raw), allocatedPort = None\<rparr>
              (w\<lparr>sites := (sites w)(trim raw \<mapsto> [Dir ''temp_extract'' es])\<rparr>))"
      by (simp add: deployDynamic_def)
    show ?C
    proof (cases v)
      case Recursive
      from h have "(sites w)(trim raw := None) = sites w" by (simp add: fun_upd_idem)
      with h show ?C
        unfolding dd by (simp add: Recursive deployCatch_def Let_def)
    next
      case Supervised
      from h show ?C
        unfolding dd
        by (simp add: Supervised deployCatch_def Let_def absent_delete split: option.splits)
    qed
  qed
  note r1 = rec [THEN conjunct1] and r2 = rec [THEN conjunct2]
    and s1 = shallow [THEN conjunct1] and s2 = shallow [THEN conjunct2]
    and t1 = locateDirs_Supervised [of es, THEN conjunct1]
    and t2 = locateDirs_Supervised [of es, THEN conjunct2]
  show ?thesis
    by (intro conjI r1 r2 s1 s2 t1 t2 deploy)
qed

theorem structure_check_and_rollback_witness:
  "locateDirs Recursive [Dir ''app'' sampleTree] =
     (Some [''app'', ''frontend''], Some [''app'', ''backend'']) \<and>
   shallowMatch ''frontend'' [] [Dir ''app'' sampleTree] [''app'', ''frontend''] \<and>
   fst (deployDynamic Recursive sampleRequest
          (sampleOutcomes\<lparr>archive := Some [Dir ''docs'' [File ''readme'' ''hello'']]\<rparr>) sampleWorld) =
     \<lparr>status = 500, reply = DeployFailed InvalidStructure\<rparr> \<and>
   ports (snd (deployDynamic Recursive sampleRequest
          (sampleOutcomes\<lparr>archive := Some [Dir ''docs'' [File ''readme'' ''hello'']]\<rparr>) sampleWorld)) =
     newPortManager \<and>
   sites (snd (deployDynamic Recursive sampleRequest
          (sampleOutcomes\<lparr>archive := Some [Dir ''docs'' [File ''readme'' ''hello'']]\<rparr>) sampleWorld)) =
     Map.empty \<and>
   uploads (snd (deployDynamic Recursive sampleRequest
          (sampleOutcomes\<lparr>archive := Some [Dir ''docs'' [File ''readme'' ''hello'']]\<rparr>) sampleWorld)) = {}"
proof -
  let ?es = "[Dir ''docs'' [File ''readme'' ''hello'']]"
  let ?out = "sampleOutcomes\<lparr>archive := Some ?es\<rparr>"
  have loc: "locateDirs Recursive [Dir ''app'' sampleTree] =
     (Some [''app'', ''frontend''], Some [''app'', ''backend''])"
    by (simp add: locateDirs_def sampleTree_def lowerChar_def)
  have miss: "fst (locateDirs Recursive ?es) = None \<or> snd (locateDirs Recursive ?es) = None"
    by (simp add: locateDirs_def lowerChar_def)
  have pre: "reqFile sampleRequest = Some ''uploads/1-app.zip'' \<and> ''uploads/1-app.zip'' \<noteq> [] \<and>
    reqName sampleRequest = Some ''app'' \<and> ''app'' \<noteq> [] \<and> trim ''app'' \<noteq> [] \<and>
    (\<forall>p \<in> set (projects sampleWorld). \<not> (owner p = reqUser sampleRequest \<and> pname p = trim ''app'')) \<and>
    plainName (trim ''app'') \<and> (\<forall>name. sites sampleWorld name \<noteq> None \<longrightarrow> plainName name) \<and>
    sites sampleWorld (trim ''app'') = None \<and> archive ?out = Some ?es"
    by (simp add: sample_defs plainName_def)
  from structure_check_and_rollback
         [of "[Dir ''app'' sampleTree]" sampleRequest "''uploads/1-app.zip''" "''app''"
             sampleWorld ?out Recursive]
       loc
  have "shallowMatch ''frontend'' [] [Dir ''app'' sampleTree] [''app'', ''frontend'']"
    by simp
  moreover
  from structure_check_and_rollback
         [of ?es sampleRequest "''uploads/1-app.zip''" "''app''" sampleWorld ?out Recursive]
       pre miss
  have "fst (deployDynamic Recursive sampleRequest ?out sampleWorld) =
          \<lparr>status = 500, reply = DeployFailed InvalidStructure\<rparr> \<and>
        ports (snd (deployDynamic Recursive sampleRequest ?out sampleWorld)) = ports sampleWorld \<and>
        uploads (snd (deployDynamic Recursive sampleRequest ?out sampleWorld)) =
          uploads sampleWorld - {''uploads/1-app.zip''} \<and>
        sites (snd (deployDynamic Recursive sampleRequest ?out sampleWorld)) = sites sampleWorld"
    by simp
  ultimately show ?thesis
    using loc by (simp add: sampleWorld_def)
qed

text \<open>
  The claim as stated fails on the supervised copy of the route. An archive that holds
  \<open>app/frontend\<close> and \<open>app/backend\<close> is refused with the structure error although both
  directories exist at depth two; and after a deployment whose tree has neither directory
  the project directory is still on disk, with the extracted tree inside.
\<close>

theorem nested_structure_counterexample:
  "[''app'', ''frontend''] \<in> set (allDirs [] [Dir ''app'' sampleTree]) \<and>
   [''app'', ''backend''] \<in> set (allDirs [] [Dir ''app'' sampleTree]) \<and>
   locateDirs Supervised [Dir ''app'' sampleTree] = (None, None) \<and>
   fst (deployDynamic Supervised sampleRequest
          (sampleOutcomes\<lparr>archive := Some [Dir ''app'' sampleTree]\<rparr>) sampleWorld) =
     \<lparr>status = 500, reply = DeployFailed InvalidStructure\<rparr> \<and>
   sites (snd (deployDynamic Supervised sampleRequest
          (sampleOutcomes\<lparr>archive := Some [Dir ''docs'' [File ''readme'' ''hello'']]\<rparr>) sampleWorld))
       ''app'' =
     Some [Dir ''temp_extract'' [Dir ''docs'' [File ''readme'' ''hello'']]]"
  by (simp add: deploy_defs sample_defs projectKey_def Let_def)

subsection \<open>Environment synchronisation\<close>

lemma toString_digits: "set (toString n) \<subseteq> set ''0123456789''"
proof (induction n rule: toString.induct)
  case (1 n)
  have d: "digitChar k \<in> set ''0123456789''" if "k < 10" for k
    unfolding digitChar_def using that by (intro nth_mem) simp
  show ?case
  proof (cases "n < 10")
    case True
    with d [of n] show ?thesis by (simp add: toString.simps [of n])
  next
    case False
    with 1 d [of "n mod 10"] show ?thesis by (simp add: toString.simps [of n])
  qed
qed

lemma toString_no_newline: "CHR 0x0A \<notin> set (toString n)"
  using toString_digits [of n] by auto

lemma toString_no_equals: "CHR ''='' \<notin> set (toString n)"
  using toString_digits [of n] by auto

lemma splitLines_nonempty: "splitLines s \<noteq> []"
  by (induction s) (auto split: list.splits)

lemma splitLines_append_newline:
  "splitLines (a @ CHR 0x0A # b) = splitLines a @ splitLines b"
proof (induction a)
  case Nil
  show ?case by simp
next
  case (Cons c cs)
  obtain l ls where "splitLines cs = l # ls"
    using splitLines_nonempty [of cs] by (cases "splitLines cs") auto
  with Cons show ?case by simp
qed

lemma splitLines_one: "CHR 0x0A \<notin> set v \<Longrightarrow> splitLines v = [v]"
  by (induction v) auto

lemma splitLines_lines:
  "\<forall>v \<in> set vs. CHR 0x0A \<notin> set v \<Longrightarrow>
   splitLines (concat (map (\<lambda>v. v @ [CHR 0x0A]) vs)) = vs @ [[]]"
proof (induction vs)
  case Nil
  show ?case by simp
next
  case (Cons v vs)
  then have "splitLines (v @ CHR 0x0A # concat (map (\<lambda>v. v @ [CHR 0x0A]) vs)) = [v] @ (vs @ [[]])"
    by (simp only: splitLines_append_newline) (simp add: splitLines_one)
  then show ?case by simp
qed

lemma joinLines_concat:
  "vs \<noteq> [] \<Longrightarrow> joinLines vs @ [CHR 0x0A] = concat (map (\<lambda>v. v @ [CHR 0x0A]) vs)"
  by (induction vs rule: joinLines.induct) simp_all

lemma keyOf_envLine:
  "CHR ''='' \<notin> set key \<Longrightarrow> keyOf (envLine key port) = key"
proof -
  assume "CHR ''='' \<notin> set key"
  then have "takeWhile (\<lambda>c. c \<noteq> CHR ''='') (key @ CHR ''='' # rest) = key" for rest
    by (induction key) auto
  then show ?thesis by (simp add: keyOf_def envLine_def)
qed

lemma envLine_no_newline:
  "CHR 0x0A \<notin> set key \<Longrightarrow> CHR 0x0A \<notin> set (envLine key port)"
  by (simp add: envLine_def toString_no_newline)

lemma missingVars_Some:
  "missingVars port (Some c) =
     (if str_includes c ''VITE_API_URL'' then [] else [envLine ''VITE_API_URL'' port]) @
     (if str_includes c ''BACKEND_ADRESSE'' then [] else [envLine ''BACKEND_ADRESSE'' port])"
  by (simp add: missingVars_def envVars_def keyOf_envLine)

lemma missingVars_None:
  "missingVars port None = [envLine ''VITE_API_URL'' port, envLine ''BACKEND_ADRESSE'' port]"
  by (simp add: missingVars_def envVars_def)

lemma syncEnvAppend_concat:
  "syncEnvAppend port content =
     (if missingVars port content = [] then content
      else Some ((case content of Some c \<Rightarrow> c | None \<Rightarrow> []) @
                 concat (map (\<lambda>v. v @ [CHR 0x0A]) (missingVars port content))))"
  by (simp add: syncEnvAppend_def joinLines_concat)

lemma envPairs_envLine:
  "CHR ''='' \<notin> set key \<Longrightarrow>
   map (\<lambda>l. (keyOf l, drop (Suc (length (keyOf l))) l)) [envLine key port] =
     [(key, ''http://localhost:'' @ toString port)]"
  by (simp add: keyOf_envLine) (simp add: envLine_def)

lemma drop_envLine:
  "drop (Suc (length key)) (envLine key port) = ''http://localhost:'' @ toString port"
  by (simp add: envLine_def)

lemma envPairs_extended:
  assumes "c = [] \<or> last c = CHR 0x0A"
    and "\<forall>v \<in> set vs. CHR 0x0A \<notin> set v \<and> CHR ''='' \<in> set v"
  shows "envPairs (c @ concat (map (\<lambda>v. v @ [CHR 0x0A]) vs)) =
         envPairs c @ map (\<lambda>l. (keyOf l, drop (Suc (length (keyOf l))) l)) vs"
proof -
  let ?added = "concat (map (\<lambda>v. v @ [CHR 0x0A]) vs)"
  from assms(2) have lines: "splitLines ?added = vs @ [[]]"
    by (intro splitLines_lines) simp
  from assms(2) have keep: "filter (\<lambda>l. CHR ''='' \<in> set l) vs = vs"
    by (simp add: filter_id_conv)
  show ?thesis
  proof (cases "c = []")
    case True
    with lines keep show ?thesis by (simp add: envPairs_def)
  next
    case False
    with assms(1) obtain a where c: "c = a @ [CHR 0x0A]"
      by (metis append_butlast_last_id)
    have "splitLines c = splitLines a @ [[]]"
      using splitLines_append_newline [of a "[]"] by (simp add: c)
    moreover have "splitLines (c @ ?added) = splitLines a @ vs @ [[]]"
      using splitLines_append_newline [of a ?added] lines by (simp add: c)
    ultimately show ?thesis using keep by (simp add: envPairs_def)
  qed
qed

lemma splitLines_hd_prefix: "prefix (hd (splitLines s)) s"
proof (induction s)
  case Nil
  show ?case by simp
next
  case (Cons c cs)
  obtain l ls where "splitLines cs = l # ls"
    using splitLines_nonempty [of cs] by (cases "splitLines cs") auto
  with Cons show ?case by simp
qed

lemma splitLines_sublist: "l \<in> set (splitLines s) \<Longrightarrow> sublist l s"
proof (induction s arbitrary: l)
  case Nil
  then show ?case by simp
next
  case (Cons c cs)
  obtain l0 ls where sp: "splitLines cs = l0 # ls"
    using splitLines_nonempty [of cs] by (cases "splitLines cs") auto
  show ?case
  proof (cases "c = CHR 0x0A")
    case True
    with Cons.prems have "l = [] \<or> l \<in> set (splitLines cs)" by simp
    with Cons.IH show ?thesis by (auto simp: sublist_Cons_right)
  next
    case False
    with Cons.prems sp have "l = c # l0 \<or> l \<in> set ls" by simp
    then show ?thesis
    proof
      assume l: "l = c # l0"
      from splitLines_hd_prefix [of cs] sp have "prefix l0 cs" by simp
      then have "prefix (c # l0) (c # cs)" by simp
      with l show ?thesis by (simp add: sublist_Cons_right)
    next
      assume "l \<in> set ls"
      with sp have "l \<in> set (splitLines cs)" by simp
      from Cons.IH [OF this] show ?thesis by (simp add: sublist_Cons_right)
    qed
  qed
qed

lemma definesKey_includes:
  "definesKey c key \<Longrightarrow> str_includes c key"
proof -
  assume "definesKey c key"
  then obtain l where l: "l \<in> set (splitLines c)" and k: "key = keyOf l"
    by (auto simp: definesKey_def envPairs_def)
  have "prefix (keyOf l) l"
    unfolding keyOf_def by (metis prefixI takeWhile_dropWhile_id)
  then have "sublist (keyOf l) l" by (rule prefix_imp_sublist)
  with splitLines_sublist [OF l] have "sublist (keyOf l) c"
    by (rule sublist_order.order.trans [rotated])
  with k show ?thesis by (simp add: str_includes_def)
qed

text \<open>
  C5, as amended. The statement covers a content that is empty or ends with a newline
  and that holds the name of one of the two keys only if it defines that key. In
  server/routes/hosting.js such a content is kept as it is, every pair it defines is
  unchanged, and one line \<open>KEY=http://localhost:<port>\<close> is appended for each of the two
  keys it does not define; without a file, one is created with both lines. In the
  supervised copy a file that defines either key is left as it is, and without a file
  one is created with both lines.
\<close>

theorem syncEnv_keeps_and_appends:
  "syncEnv Recursive port None =
     Some (envLine ''VITE_API_URL'' port @ [CHR 0x0A] @
           envLine ''BACKEND_ADRESSE'' port @ [CHR 0x0A]) \<and>
   ((c = [] \<or> last c = CHR 0x0A) \<and>
    (str_includes c ''VITE_API_URL'' \<longrightarrow> definesKey c ''VITE_API_URL'') \<and>
    (str_includes c ''BACKEND_ADRESSE'' \<longrightarrow> definesKey c ''BACKEND_ADRESSE'') \<longrightarrow>
      (\<exists>added. syncEnv Recursive port (Some c) = Some (c @ added) \<and>
         envPairs (c @ added) =
           envPairs c @
           (if definesKey c ''VITE_API_URL'' then []
            else [(''VITE_API_URL'', ''http://localhost:'' @ toString port)]) @
           (if definesKey c ''BACKEND_ADRESSE'' then []
            else [(''BACKEND_ADRESSE'', ''http://localhost:'' @ toString port)]))) \<and>
   syncEnv Supervised port None =
     Some (envLine ''VITE_API_URL'' port @ [CHR 0x0A] @
           envLine ''BACKEND_ADRESSE'' port @ [CHR 0x0A]) \<and>
   (definesKey c ''VITE_API_URL'' \<or> definesKey c ''BACKEND_ADRESSE'' \<longrightarrow>
      syncEnv Supervised port (Some c) = Some c)"
proof (intro conjI impI)
  show "syncEnv Recursive port None =
     Some (envLine ''VITE_API_URL'' port @ [CHR 0x0A] @
           envLine ''BACKEND_ADRESSE'' port @ [CHR 0x0A])"
    by (simp add: syncEnv_def syncEnvAppend_concat missingVars_None)
  show "syncEnv Supervised port None =
     Some (envLine ''VITE_API_URL'' port @ [CHR 0x0A] @
           envLine ''BACKEND_ADRESSE'' port @ [CHR 0x0A])"
    by (simp add: syncEnv_def syncEnvWrite_def needsEnvUpdate_def envLine_def)
  show "syncEnv Supervised port (Some c) = Some c"
    if "definesKey c ''VITE_API_URL'' \<or> definesKey c ''BACKEND_ADRESSE''"
    using that definesKey_includes [of c]
    by (auto simp: syncEnv_def syncEnvWrite_def needsEnvUpdate_def)
next
  assume h: "(c = [] \<or> last c = CHR 0x0A) \<and>
    (str_includes c ''VITE_API_URL'' \<longrightarrow> definesKey c ''VITE_API_URL'') \<and>
    (str_includes c ''BACKEND_ADRESSE'' \<longrightarrow> definesKey c ''BACKEND_ADRESSE'')"
  then have ends: "c = [] \<or> last c = CHR 0x0A" by simp
  from h definesKey_includes [of c]
  have v: "str_includes c ''VITE_API_URL'' \<longleftrightarrow> definesKey c ''VITE_API_URL''"
    and b: "str_includes c ''BACKEND_ADRESSE'' \<longleftrightarrow> definesKey c ''BACKEND_ADRESSE''"
    by blast+
  let ?added = "concat (map (\<lambda>v. v @ [CHR 0x0A]) (missingVars port (Some c)))"
  have sync: "syncEnv Recursive port (Some c) = Some (c @ ?added)"
    by (simp add: syncEnv_def syncEnvAppend_concat)
  have ok: "\<forall>v \<in> set (missingVars port (Some c)). CHR 0x0A \<notin> set v \<and> CHR ''='' \<in> set v"
    by (simp add: missingVars_Some envLine_no_newline) (simp add: envLine_def)
  have pairs: "map (\<lambda>l. (keyOf l, drop (Suc (length (keyOf l))) l)) (missingVars port (Some c)) =
        (if definesKey c ''VITE_API_URL'' then []
         else [(''VITE_API_URL'', ''http://localhost:'' @ toString port)]) @
        (if definesKey c ''BACKEND_ADRESSE'' then []
         else [(''BACKEND_ADRESSE'', ''http://localhost:'' @ toString port)])"
    using drop_envLine [of "''VITE_API_URL''" port] drop_envLine [of "''BACKEND_ADRESSE''" port]
    by (simp add: missingVars_Some keyOf_envLine v b)
  from envPairs_extended [OF ends ok] pairs
  have "envPairs (c @ ?added) =
        envPairs c @
        (if definesKey c ''VITE_API_URL'' then []
         else [(''VITE_API_URL'', ''http://localhost:'' @ toString port)]) @
        (if definesKey c ''BACKEND_ADRESSE'' then []
         else [(''BACKEND_ADRESSE'', ''http://localhost:'' @ toString port)])"
    by simp
  with sync show "\<exists>added. syncEnv Recursive port (Some c) = Some (c @ added) \<and>
         envPairs (c @ added) =
           envPairs c @
           (if definesKey c ''VITE_API_URL'' then []
            else [(''VITE_API_URL'', ''http://localhost:'' @ toString port)]) @
           (if definesKey c ''BACKEND_ADRESSE'' then []
            else [(''BACKEND_ADRESSE'', ''http://localhost:'' @ toString port)])"
    by blast
qed

lemma includes_vite:
  "str_includes ''VITE_API_URL=http://x'' ''VITE_API_URL''"
  "str_includes ''VITE_API_URL=http://x\<newline>'' ''VITE_API_URL''"
  "str_includes ''#VITE_API_URL\<newline>'' ''VITE_API_URL''"
  by (simp_all add: str_includes_def sublist_Cons_right)

lemma excludes_backend:
  "\<not> str_includes ''VITE_API_URL=http://x'' ''BACKEND_ADRESSE''"
  "\<not> str_includes ''VITE_API_URL=http://x\<newline>'' ''BACKEND_ADRESSE''"
  "\<not> str_includes ''#VITE_API_URL\<newline>'' ''BACKEND_ADRESSE''"
  by (simp_all add: str_includes_def sublist_Cons_right)

theorem syncEnv_keeps_and_appends_witness:
  "syncEnv Recursive 3001 (Some ''VITE_API_URL=http://x\<newline>'') =
     Some (''VITE_API_URL=http://x\<newline>BACKEND_ADRESSE=http://localhost:3001\<newline>'') \<and>
   envPairs (''VITE_API_URL=http://x\<newline>BACKEND_ADRESSE=http://localhost:3001\<newline>'') =
     [(''VITE_API_URL'', ''http://x''), (''BACKEND_ADRESSE'', ''http://localhost:3001'')] \<and>
   syncEnv Supervised 3001 (Some ''VITE_API_URL=http://x\<newline>'') =
     Some ''VITE_API_URL=http://x\<newline>''"
proof -
  let ?c = "''VITE_API_URL=http://x\<newline>''"
  have pairs: "envPairs ?c = [(''VITE_API_URL'', ''http://x'')]"
    by (simp add: envPairs_def keyOf_def)
  then have dv: "definesKey ?c ''VITE_API_URL''" and db: "\<not> definesKey ?c ''BACKEND_ADRESSE''"
    by (simp_all add: definesKey_def)
  have ends: "?c = [] \<or> last ?c = CHR 0x0A" by simp
  note inc = includes_vite(2) and exc = excludes_backend(2)
  have sync: "syncEnv Recursive 3001 (Some ?c) =
      Some (?c @ ''BACKEND_ADRESSE=http://localhost:3001\<newline>'')"
    using inc exc by (simp add: syncEnv_def syncEnvAppend_concat missingVars_Some envLine_def)
  note T = syncEnv_keeps_and_appends [of 3001 ?c]
  from T ends dv exc obtain added where
    a: "syncEnv Recursive 3001 (Some ?c) = Some (?c @ added)" and
    e: "envPairs (?c @ added) =
          envPairs ?c @
          (if definesKey ?c ''VITE_API_URL'' then []
           else [(''VITE_API_URL'', ''http://localhost:'' @ toString 3001)]) @
          (if definesKey ?c ''BACKEND_ADRESSE'' then []
           else [(''BACKEND_ADRESSE'', ''http://localhost:'' @ toString 3001)])"
    by blast
  from a sync have "added = ''BACKEND_ADRESSE=http://localhost:3001\<newline>''" by simp
  with e pairs dv db have ep:
    "envPairs ''VITE_API_URL=http://x\<newline>BACKEND_ADRESSE=http://localhost:3001\<newline>'' =
     [(''VITE_API_URL'', ''http://x''), (''BACKEND_ADRESSE'', ''http://localhost:3001'')]"
    by simp
  from T dv have sup: "syncEnv Supervised 3001 (Some ?c) = Some ?c"
    by blast
  from sync ep sup show ?thesis by simp
qed

text \<open>
  The claim as stated fails in three ways. In the supervised copy a file that defines
  only the API-base key is left without the backend-address key. In
  server/routes/hosting.js a file whose last line has no newline gets the new line glued
  to it, so the value of the key on that line changes; and a file that only mentions
  the name of a key, here in a comment line, does not get that key appended.
\<close>

theorem syncEnv_counterexample:
  "syncEnv Supervised 3001 (Some ''VITE_API_URL=http://x\<newline>'') =
     Some ''VITE_API_URL=http://x\<newline>'' \<and>
   envPairs ''VITE_API_URL=http://x\<newline>'' = [(''VITE_API_URL'', ''http://x'')] \<and>
   syncEnv Recursive 3001 (Some ''VITE_API_URL=http://x'') =
     Some ''VITE_API_URL=http://xBACKEND_ADRESSE=http://localhost:3001\<newline>'' \<and>
   envPairs ''VITE_API_URL=http://x'' = [(''VITE_API_URL'', ''http://x'')] \<and>
   envPairs ''VITE_API_URL=http://xBACKEND_ADRESSE=http://localhost:3001\<newline>'' =
     [(''VITE_API_URL'', ''http://xBACKEND_ADRESSE=http://localhost:3001'')] \<and>
   syncEnv Recursive 3001 (Some ''#VITE_API_URL\<newline>'') =
     Some ''#VITE_API_URL\<newline>BACKEND_ADRESSE=http://localhost:3001\<newline>'' \<and>
   envPairs ''#VITE_API_URL\<newline>BACKEND_ADRESSE=http://localhost:3001\<newline>'' =
     [(''BACKEND_ADRESSE'', ''http://localhost:3001'')]"
proof -
  have a: "syncEnv Supervised 3001 (Some ''VITE_API_URL=http://x\<newline>'') =
     Some ''VITE_API_URL=http://x\<newline>''"
    using includes_vite(2)
    by (simp add: syncEnv_def syncEnvWrite_def needsEnvUpdate_def)
  have a': "envPairs ''VITE_API_URL=http://x\<newline>'' = [(''VITE_API_URL'', ''http://x'')]"
    by (simp add: envPairs_def keyOf_def)
  have b: "syncEnv Recursive 3001 (Some ''VITE_API_URL=http://x'') =
     Some ''VITE_API_URL=http://xBACKEND_ADRESSE=http://localhost:3001\<newline>''"
    using includes_vite(1) excludes_backend(1)
    by (simp add: syncEnv_def syncEnvAppend_concat missingVars_Some envLine_def)
  have c: "envPairs ''VITE_API_URL=http://x'' = [(''VITE_API_URL'', ''http://x'')]"
    by (simp add: envPairs_def keyOf_def)
  have d: "envPairs ''VITE_API_URL=http://xBACKEND_ADRESSE=http://localhost:3001\<newline>'' =
     [(''VITE_API_URL'', ''http://xBACKEND_ADRESSE=http://localhost:3001'')]"
    by (simp add: envPairs_def keyOf_def)
  have e: "syncEnv Recursive 3001 (Some ''#VITE_API_URL\<newline>'') =
     Some ''#VITE_API_URL\<newline>BACKEND_ADRESSE=http://localhost:3001\<newline>''"
    using includes_vite(3) excludes_backend(3)
    by (simp add: syncEnv_def syncEnvAppend_concat missingVars_Some envLine_def)
  have f: "envPairs ''#VITE_API_URL\<newline>BACKEND_ADRESSE=http://localhost:3001\<newline>'' =
     [(''BACKEND_ADRESSE'', ''http://localhost:3001'')]"
    by (simp add: envPairs_def keyOf_def)
  from a a' b c d e f show ?thesis by simp
qed

subsection \<open>Restart and redeployment under a registered key\<close>

lemma grows_refl: "grows u name w w"
  by (auto simp: grows_def)

lemma grows_trans:
  assumes "grows u name w w1" and "grows u name w1 w2"
  shows "grows u name w w2"
  unfolding grows_def
proof (intro conjI ballI allI impI)
  assume "distinct (map fst (runningProcesses w))"
  with assms show "distinct (map fst (runningProcesses w2))" by (simp add: grows_def)
next
  fix m assume "sites w m \<noteq> None"
  with assms show "sites w2 m \<noteq> None" by (simp add: grows_def)
next
  fix key assume "key \<in> fst ` set (runningProcesses w2)"
  with assms(2) have "key \<in> fst ` set (runningProcesses w1) \<or>
      (key = projectKey u name \<and> sites w2 name \<noteq> None)"
    unfolding grows_def by blast
  moreover have "key \<in> fst ` set (runningProcesses w) \<or>
      (key = projectKey u name \<and> sites w2 name \<noteq> None)"
    if "key \<in> fst ` set (runningProcesses w1)"
  proof -
    from that assms(1) have "key \<in> fst ` set (runningProcesses w) \<or>
      (key = projectKey u name \<and> sites w1 name \<noteq> None)"
      unfolding grows_def by blast
    moreover have "sites w1 name \<noteq> None \<Longrightarrow> sites w2 name \<noteq> None"
      using assms(2) by (simp add: grows_def)
    ultimately show ?thesis by blast
  qed
  ultimately show "key \<in> fst ` set (runningProcesses w) \<or>
      (key = projectKey u name \<and> sites w2 name \<noteq> None)" by blast
next
  fix p' assume "p' \<in> set (projects w2)"
  with assms(2) have c2: "(\<exists>p \<in> set (projects w1). pname p' = pname p \<and> pport p' = pport p) \<or>
      sites w2 (pname p') \<noteq> None"
    unfolding grows_def by blast
  show "(\<exists>p \<in> set (projects w). pname p' = pname p \<and> pport p' = pport p) \<or>
      sites w2 (pname p') \<noteq> None"
  proof (cases "sites w2 (pname p') \<noteq> None")
    case True
    then show ?thesis by simp
  next
    case False
    with c2 obtain p1 where p1: "p1 \<in> set (projects w1)" "pname p' = pname p1" "pport p' = pport p1"
      by blast
    from p1(1) assms(1) have "(\<exists>p \<in> set (projects w). pname p1 = pname p \<and> pport p1 = pport p) \<or>
      sites w1 (pname p1) \<noteq> None"
      unfolding grows_def by blast
    moreover have "sites w1 (pname p1) \<noteq> None \<Longrightarrow> sites w2 (pname p1) \<noteq> None"
      using assms(2) by (simp add: grows_def)
    ultimately show ?thesis using False p1 by auto
  qed
qed

lemma grows_consistent:
  assumes "consistent L w" and "length u = L" and "grows u name w w'"
  shows "consistent L w'"
  unfolding consistent_def
proof (intro conjI ballI impI)
  from assms(1,3) show "distinct (map fst (runningProcesses w'))"
    by (simp add: consistent_def grows_def)
next
  fix key assume "key \<in> fst ` set (runningProcesses w')"
  with assms(3) have "key \<in> fst ` set (runningProcesses w) \<or>
      (key = projectKey u name \<and> sites w' name \<noteq> None)"
    unfolding grows_def by blast
  then show "\<exists>u n. length u = L \<and> key = projectKey u n \<and> sites w' n \<noteq> None"
  proof
    assume "key \<in> fst ` set (runningProcesses w)"
    with assms(1) obtain u0 n0 where "length u0 = L" "key = projectKey u0 n0" "sites w n0 \<noteq> None"
      unfolding consistent_def by blast
    moreover from this assms(3) have "sites w' n0 \<noteq> None" by (simp add: grows_def)
    ultimately show ?thesis by blast
  next
    assume "key = projectKey u name \<and> sites w' name \<noteq> None"
    with assms(2) show ?thesis by blast
  qed
next
  fix p' assume p': "p' \<in> set (projects w')" and port: "pport p' \<noteq> None"
  from p' assms(3) have "(\<exists>p \<in> set (projects w). pname p' = pname p \<and> pport p' = pport p) \<or>
      sites w' (pname p') \<noteq> None"
    unfolding grows_def by blast
  then show "sites w' (pname p') \<noteq> None"
  proof
    assume "\<exists>p \<in> set (projects w). pname p' = pname p \<and> pport p' = pport p"
    then obtain p where p: "p \<in> set (projects w)" "pname p' = pname p" "pport p' = pport p" by blast
    with port assms(1) have "sites w (pname p) \<noteq> None" by (simp add: consistent_def)
    with assms(3) p show ?thesis by (simp add: grows_def)
  qed
qed


lemma grows_frame:
  "runningProcesses w' = runningProcesses w \<Longrightarrow> projects w' = projects w \<Longrightarrow>
   (\<forall>m. sites w m \<noteq> None \<longrightarrow> sites w' m \<noteq> None) \<Longrightarrow> grows u name w w'"
  by (auto simp: grows_def)

lemma grows_shrink:
  "runningProcesses w' = AList.delete key (runningProcesses w) \<Longrightarrow> projects w' = projects w \<Longrightarrow>
   sites w' = sites w \<Longrightarrow> grows u name w w'"
  unfolding grows_def
  using dom_delete_subset [of key "runningProcesses w"]
  by (auto simp: distinct_delete)

lemma onEvent_rest:
  "sites (snd (onEvent key port e sw)) = sites (snd sw) \<and>
   projects (snd (onEvent key port e sw)) = projects (snd sw)"
  by (cases "(key, port, e, sw)" rule: onEvent.cases) (auto split: if_splits)

lemma awaitSettled_rest:
  "sites (snd (awaitSettled key port es sw)) = sites (snd sw) \<and>
   projects (snd (awaitSettled key port es sw)) = projects (snd sw)"
  by (induction es arbitrary: sw) (simp_all add: onEvent_rest)

lemma spawnBackend_rest:
  "sites (spawnBackend key npid w) = sites w \<and>
   projects (spawnBackend key npid w) = projects w \<and>
   fst ` set (runningProcesses (spawnBackend key npid w)) = insert key (fst ` set (runningProcesses w)) \<and>
   (distinct (map fst (runningProcesses w)) \<longrightarrow>
      distinct (map fst (runningProcesses (spawnBackend key npid w))))"
  by (simp add: spawnBackend_def Let_def dom_update distinct_update split: option.splits)

lemma startBackendServer_rest:
  "sites (snd (startBackendServer u n port npid evs w)) = sites w \<and>
   projects (snd (startBackendServer u n port npid evs w)) = projects w \<and>
   fst ` set (runningProcesses (snd (startBackendServer u n port npid evs w))) \<subseteq>
     insert (projectKey u n) (fst ` set (runningProcesses w)) \<and>
   (distinct (map fst (runningProcesses w)) \<longrightarrow>
      distinct (map fst (runningProcesses (snd (startBackendServer u n port npid evs w)))))"
proof -
  let ?k = "projectKey u n"
  let ?sw = "(\<lparr>promise = Pending, startupTimeout = True\<rparr>, spawnBackend ?k npid w)"
  let ?es = "map Child evs @ [GraceTimer, StartupTimer]"
  note sp = spawnBackend_rest [of ?k npid w]
  have a: "sites (snd (startBackendServer u n port npid evs w)) = sites w"
    using sp by (simp add: startBackendServer_snd awaitSettled_rest)
  have b: "projects (snd (startBackendServer u n port npid evs w)) = projects w"
    using sp by (simp add: startBackendServer_snd awaitSettled_rest)
  have c: "fst ` set (runningProcesses (snd (startBackendServer u n port npid evs w))) \<subseteq>
     insert (projectKey u n) (fst ` set (runningProcesses w))"
    using awaitSettled_keys [of ?k port ?es ?sw] sp by (simp add: startBackendServer_snd)
  have d: "distinct (map fst (runningProcesses (snd (startBackendServer u n port npid evs w))))"
    if "distinct (map fst (runningProcesses w))"
    unfolding startBackendServer_snd
    using that sp by (intro awaitSettled_distinct) simp
  from a b c d show ?thesis by blast
qed

lemma startBackendServer_grows:
  "sites w n \<noteq> None \<Longrightarrow> grows u n w (snd (startBackendServer u n port npid evs w))"
  using startBackendServer_rest [of u n port npid evs w]
  unfolding grows_def by auto

lemma stageCommit_grows:
  "sites w name \<noteq> None \<Longrightarrow>
   grows (reqUser req) name w (snd (snd (stageCommit v req out upload name pkg port l w)))"
  by (auto simp: stageCommit_def Let_def grows_def)

lemma stageRun_grows:
  assumes "sites w name \<noteq> None"
  shows "grows (reqUser req) name w (snd (snd (stageRun v req out upload name pkg port l w)))"
proof (cases v)
  case Recursive
  with assms show ?thesis by (simp add: stageRun_def stageCommit_grows)
next
  case Supervised
  obtain pr w1 where start:
    "startBackendServer (reqUser req) name port (newPid out) (backendEvents out) w = (pr, w1)"
    by (cases "startBackendServer (reqUser req) name port (newPid out) (backendEvents out) w")
  from startBackendServer_grows [OF assms, of "reqUser req" port "newPid out" "backendEvents out"] start
  have g1: "grows (reqUser req) name w w1" by simp
  from startBackendServer_rest [of "reqUser req" name port "newPid out" "backendEvents out" w] start assms
  have "sites w1 name \<noteq> None" by simp
  from stageCommit_grows [OF this, of req v out upload pkg port l]
  have g2: "grows (reqUser req) name w1 (snd (snd (stageCommit v req out upload name pkg port l w1)))" .
  from grows_trans [OF g1 g2] g1 show ?thesis
    using Supervised start
    by (cases pr) (simp_all add: stageRun_def grows_refl)
qed

lemma grows_then:
  assumes "grows u name w w1" and "sites w1 name \<noteq> None"
    and "\<And>w. sites w name \<noteq> None \<Longrightarrow> grows u name w (f w)"
  shows "grows u name w (f w1)"
  using grows_trans [OF assms(1) assms(3) [OF assms(2)]] .

lemma stageConfigure_grows:
  assumes "sites w name \<noteq> None"
  shows "grows (reqUser req) name w
           (snd (snd (stageConfigure v req out upload name pkg ff bf l w)))"
proof (cases "allocatePort (ports w)")
  case (Inl e)
  then show ?thesis by (simp add: stageConfigure_def grows_refl)
next
  case (Inr r)
  obtain port pm where r: "r = (port, pm)" by (cases r)
  have run: "grows (reqUser req) name w (snd (snd (stageRun v req out upload name pkg port l' w')))"
    if "runningProcesses w' = runningProcesses w" "projects w' = projects w"
       "\<forall>m. sites w m \<noteq> None \<longrightarrow> sites w' m \<noteq> None" for w' l'
  proof -
    from that have g: "grows (reqUser req) name w w'" by (rule grows_frame)
    from that(3) assms have "sites w' name \<noteq> None" by simp
    from grows_trans [OF g stageRun_grows [OF this]] show ?thesis .
  qed
  have g0: "grows (reqUser req) name w (w\<lparr>ports := pm\<rparr>)"
    by (rule grows_frame) simp_all
  show ?thesis
    using Inr r assms g0
    by (auto simp: stageConfigure_def Let_def split: option.splits intro!: run)
qed

lemma stageValidate_grows:
  assumes "sites w name \<noteq> None"
  shows "grows (reqUser req) name w (snd (snd (stageValidate v req out upload name es l w)))"
proof -
  have conf: "grows (reqUser req) name w
           (snd (snd (stageConfigure v req out upload name pkg ff bf l' w')))"
    if "runningProcesses w' = runningProcesses w" "projects w' = projects w"
       "\<forall>m. sites w m \<noteq> None \<longrightarrow> sites w' m \<noteq> None" for w' l' pkg ff bf
  proof -
    from that have g: "grows (reqUser req) name w w'" by (rule grows_frame)
    from that(3) assms have "sites w' name \<noteq> None" by simp
    from grows_trans [OF g stageConfigure_grows [OF this]] show ?thesis .
  qed
  have g0: "grows (reqUser req) name w (w\<lparr>sites := (sites w)(name \<mapsto> x)\<rparr>)" for x
    by (rule grows_frame) simp_all
  show ?thesis
    using assms g0
    by (auto simp: stageValidate_def grows_refl split: prod.splits option.splits
             intro!: conf)
qed

lemma stageExtract_grows:
  "grows (reqUser req) name w (snd (snd (stageExtract v req out upload name l w)))"
proof (cases "sites w name")
  case (Some existing)
  then show ?thesis by (simp add: stageExtract_def createProjectDirectory_def grows_refl)
next
  case None
  have val: "grows (reqUser req) name w
           (snd (snd (stageValidate v req out upload name es l' w')))"
    if "runningProcesses w' = runningProcesses w" "projects w' = projects w"
       "\<forall>m. sites w m \<noteq> None \<longrightarrow> sites w' m \<noteq> None" "sites w' name \<noteq> None" for w' l' es
  proof -
    from that(1-3) have g: "grows (reqUser req) name w w'" by (rule grows_frame)
    from grows_trans [OF g stageValidate_grows [OF that(4)]] show ?thesis .
  qed
  have g0: "grows (reqUser req) name w (w\<lparr>sites := (sites w)(name \<mapsto> x)\<rparr>)" for x
    by (rule grows_frame) simp_all
  show ?thesis
    using None g0
    by (auto simp: stageExtract_def createProjectDirectory_def Let_def split: option.splits
             intro!: val)
qed

lemma deployTry_grows:
  "grows (reqUser req) (case reqName req of Some raw \<Rightarrow> trim raw | None \<Rightarrow> [])
     w (snd (snd (deployTry v req out w)))"
  by (simp add: deployTry_def Let_def grows_refl stageExtract_grows split: option.splits)

lemma deployCatch_grows:
  "grows u name w (deployCatch Supervised req l w)"
proof -
  let ?key = "projectKey (reqUser req)
                  (case reqName req of Some raw \<Rightarrow> if raw \<noteq> [] then raw else ''unknown''
                   | None \<Rightarrow> ''unknown'')"
  have "runningProcesses (deployCatch Supervised req l w) = runningProcesses w \<or>
        runningProcesses (deployCatch Supervised req l w) = AList.delete ?key (runningProcesses w)"
    by (simp add: deployCatch_def Let_def split: option.splits)
  moreover have "projects (deployCatch Supervised req l w) = projects w"
    by (simp add: deployCatch_def Let_def split: option.splits)
  moreover have "sites (deployCatch Supervised req l w) = sites w"
    by (simp add: deployCatch_def Let_def split: option.splits)
  ultimately show ?thesis
    using grows_frame [of "deployCatch Supervised req l w" w u name]
      grows_shrink [of "deployCatch Supervised req l w" ?key w u name]
    by auto
qed

lemma deployDynamic_grows:
  "grows (reqUser req) (case reqName req of Some raw \<Rightarrow> trim raw | None \<Rightarrow> [])
     w (snd (deployDynamic Supervised req out w))"
proof -
  obtain res l w' where t: "deployTry Supervised req out w = (res, l, w')"
    by (cases "deployTry Supervised req out w")
  with deployTry_grows [of req w Supervised out]
  have g: "grows (reqUser req) (case reqName req of Some raw \<Rightarrow> trim raw | None \<Rightarrow> []) w w'"
    by simp
  show ?thesis
  proof (cases res)
    case (Returned r)
    with t g show ?thesis by (simp add: deployDynamic_def)
  next
    case (Threw e)
    with t grows_trans [OF g deployCatch_grows [of _ _ w' req l]]
    show ?thesis by (simp add: deployDynamic_def)
  qed
qed


lemma markStopped_same:
  "p' \<in> set (markStopped u n ps) \<Longrightarrow> \<exists>p \<in> set ps. pname p' = pname p \<and> pport p' = pport p"
  by (induction ps) (auto split: if_splits)

lemma markActive_same:
  "p' \<in> set (markActive u n ps) \<Longrightarrow> \<exists>p \<in> set ps. pname p' = pname p \<and> pport p' = pport p"
  by (induction ps) (auto split: if_splits)

lemma grows_projects:
  assumes "\<forall>p' \<in> set ps. \<exists>p \<in> set (projects w). pname p' = pname p \<and> pport p' = pport p"
  shows "grows u name w (w\<lparr>projects := ps\<rparr>)"
  using assms by (auto simp: grows_def)

lemma stopProject_grows:
  "grows u n w (snd (stopProject u n dbOk w))"
proof (cases "map_of (runningProcesses w) (projectKey u n)")
  case None
  then show ?thesis by (simp add: stopProject_def grows_refl)
next
  case (Some proc)
  let ?w1 = "w\<lparr>actions := actions w @ [Signalled (pid proc)],
                runningProcesses := AList.delete (projectKey u n) (runningProcesses w)\<rparr>"
  have g1: "grows u n w ?w1" by (rule grows_shrink [of _ "projectKey u n"]) simp_all
  have g2: "grows u n ?w1 (?w1\<lparr>projects := markStopped u n (projects ?w1)\<rparr>)"
    by (rule grows_projects) (auto dest: markStopped_same)
  from Some g1 grows_trans [OF g1 g2] show ?thesis
    by (cases dbOk) (simp_all add: stopProject_def Let_def)
qed

lemma restartProject_grows:
  assumes "consistent L w"
  shows "grows u n w (snd (restartProject u n npid evs dbOk w))"
proof (cases "find (\<lambda>p. owner p = u \<and> pname p = n) (projects w)")
  case None
  then show ?thesis by (simp add: restartProject_def grows_refl)
next
  case (Some found)
  then have mem: "found \<in> set (projects w)" and nm: "pname found = n"
    by (auto simp: find_Some_iff)
  let ?k = "projectKey u n"
  let ?w1 = "case map_of (runningProcesses w) ?k of
               Some proc \<Rightarrow>
                 w\<lparr>actions := actions w @ [Signalled (pid proc)],
                   runningProcesses := AList.delete ?k (runningProcesses w)\<rparr>
             | None \<Rightarrow> w"
  have g1: "grows u n w ?w1"
    by (cases "map_of (runningProcesses w) ?k")
       (simp_all add: grows_refl grows_shrink [of _ ?k])
  have s1: "sites ?w1 = sites w" by (simp split: option.splits)
  show ?thesis
  proof (cases "pport found")
    case None
    with Some g1 show ?thesis by (simp add: restartProject_def Let_def)
  next
    case (Some port)
    with mem nm assms have dir: "sites w n \<noteq> None" by (auto simp: consistent_def)
    with s1 have dir1: "sites ?w1 n \<noteq> None" by simp
    obtain pr w2 where start: "startBackendServer u n port npid evs ?w1 = (pr, w2)"
      by (cases "startBackendServer u n port npid evs ?w1")
    from startBackendServer_grows [OF dir1, of u port npid evs] start
    have "grows u n ?w1 w2" by simp
    with g1 have g2: "grows u n w w2" by (rule grows_trans)
    have "grows u n w2 (w2\<lparr>projects := markActive u n (projects w2)\<rparr>)"
      by (rule grows_projects) (auto dest: markActive_same)
    with g2 have g3: "grows u n w (w2\<lparr>projects := markActive u n (projects w2)\<rparr>)"
      by (rule grows_trans)
    from \<open>find (\<lambda>p. owner p = u \<and> pname p = n) (projects w) = Some found\<close> Some start g2 g3
    show ?thesis
      by (cases pr; cases dbOk) (simp_all add: restartProject_def Let_def)
  qed
qed

lemma reachable_consistent:
  "reachable L w \<Longrightarrow> consistent L w"
proof (induction rule: reachable.induct)
  case (boot w)
  then show ?case by (simp add: consistent_def)
next
  case (deploy w req out)
  from grows_consistent [OF deploy.IH deploy.hyps(2) deployDynamic_grows] show ?case .
next
  case (stop w userId projectName dbOk)
  from grows_consistent [OF stop.IH stop.hyps(2) stopProject_grows] show ?case .
next
  case (restart w userId projectName npid evs dbOk)
  from grows_consistent [OF restart.IH restart.hyps(2) restartProject_grows [OF restart.IH]]
  show ?case .
next
  case (closed w key)
  have "grows (replicate L (CHR ''0'')) [] w
          (w\<lparr>runningProcesses := AList.delete key (runningProcesses w)\<rparr>)"
    by (rule grows_shrink [of _ key]) simp_all
  from grows_consistent [OF closed.IH _ this] show ?case by simp
next
  case (stored w upload)
  then show ?case by (simp add: consistent_def)
next
  case (metadata w ps)
  then show ?case by (auto simp: consistent_def)
next
  case (created w dirs)
  from created.hyps(2) have "grows (replicate L (CHR ''0'')) [] w (w\<lparr>sites := dirs\<rparr>)"
    by (intro grows_frame) simp_all
  from grows_consistent [OF created.IH _ this] show ?case by simp
qed

lemma registered_directory:
  assumes "consistent L w" and "length u = L"
    and "map_of (runningProcesses w) (projectKey u n) = Some old"
  shows "sites w n \<noteq> None"
proof -
  from assms(3) have "projectKey u n \<in> fst ` set (runningProcesses w)"
    by (metis domI dom_map_of_conv_image_fst)
  with assms(1) obtain u0 n0 where o: "length u0 = L" "projectKey u n = projectKey u0 n0"
      "sites w n0 \<noteq> None"
    unfolding consistent_def by blast
  from o(1,2) assms(2) have "n = n0" by (simp add: projectKey_def)
  with o(3) show ?thesis by simp
qed

lemma awaitSettled_value:
  "map_of (runningProcesses (snd (awaitSettled key port es sw))) key =
     map_of (runningProcesses (snd sw)) key \<or>
   map_of (runningProcesses (snd (awaitSettled key port es sw))) key = None"
proof (induction es arbitrary: sw)
  case Nil
  show ?case by simp
next
  case (Cons e es)
  from onEvent_registry [of key port e sw]
  have "map_of (runningProcesses (snd (onEvent key port e sw))) key =
          map_of (runningProcesses (snd sw)) key \<or>
        map_of (runningProcesses (snd (onEvent key port e sw))) key = None"
    by (auto simp: delete_conv')
  with Cons [of "onEvent key port e sw"] show ?case by auto
qed

lemma spawnBackend_fresh:
  assumes "map_of (runningProcesses w) key = None"
  shows "actions (spawnBackend key npid w) = actions w @ [Spawned npid]"
    and "map_of (runningProcesses (spawnBackend key npid w)) key = Some \<lparr>pid = npid, killed = False\<rparr>"
  using assms by (simp_all add: spawnBackend_def Let_def update_conv')

lemma deployCatch_actions:
  "actions (deployCatch Supervised req l w) = actions w \<or>
   (\<exists>p. actions (deployCatch Supervised req l w) = actions w @ [Signalled p])"
  by (simp add: deployCatch_def Let_def split: option.splits)

lemma deployTry_existing:
  assumes "reqName req = Some raw" and "sites w (trim raw) \<noteq> None"
  shows "snd (snd (deployTry v req out w)) = w"
  using assms
  by (auto simp: deployTry_def Let_def stageExtract_def createProjectDirectory_def
           split: option.splits)


lemma restartProject_running:
  assumes "map_of (runningProcesses w) (projectKey u n) = Some old"
    and "distinct (map fst (runningProcesses w))"
    and "find (\<lambda>p. owner p = u \<and> pname p = n) (projects w) = Some found"
  shows "actions (snd (restartProject u n npid evs dbOk w)) =
           actions w @ [Signalled (pid old)] @
           (case pport found of Some port \<Rightarrow> [Spawned npid] | None \<Rightarrow> [])"
    and "distinct (map fst (runningProcesses (snd (restartProject u n npid evs dbOk w))))"
    and "map_of (runningProcesses (snd (restartProject u n npid evs dbOk w))) (projectKey u n) =
           Some \<lparr>pid = npid, killed = False\<rparr> \<or>
         map_of (runningProcesses (snd (restartProject u n npid evs dbOk w))) (projectKey u n) = None"
proof -
  let ?k = "projectKey u n"
  let ?w1 = "w\<lparr>actions := actions w @ [Signalled (pid old)],
                runningProcesses := AList.delete ?k (runningProcesses w)\<rparr>"
  have absent: "map_of (runningProcesses ?w1) ?k = None" by (simp add: delete_conv')
  from assms(2) have d1: "distinct (map fst (runningProcesses ?w1))" by (simp add: distinct_delete)
  have all: "actions (snd (restartProject u n npid evs dbOk w)) =
           actions w @ [Signalled (pid old)] @
           (case pport found of Some port \<Rightarrow> [Spawned npid] | None \<Rightarrow> []) \<and>
        distinct (map fst (runningProcesses (snd (restartProject u n npid evs dbOk w)))) \<and>
        (map_of (runningProcesses (snd (restartProject u n npid evs dbOk w))) ?k =
           Some \<lparr>pid = npid, killed = False\<rparr> \<or>
         map_of (runningProcesses (snd (restartProject u n npid evs dbOk w))) ?k = None)"
  proof (cases "pport found")
    case None
    with assms(1,3) have "snd (restartProject u n npid evs dbOk w) = ?w1"
      by (simp add: restartProject_def Let_def)
    with None absent d1 show ?thesis by simp
  next
    case (Some port)
    let ?sw = "(\<lparr>promise = Pending, startupTimeout = True\<rparr>, spawnBackend ?k npid ?w1)"
    let ?es = "map Child evs @ [GraceTimer, StartupTimer]"
    obtain pr w2 where start: "startBackendServer u n port npid evs ?w1 = (pr, w2)"
      by (cases "startBackendServer u n port npid evs ?w1")
    note sp = spawnBackend_fresh [OF absent, of npid]
    from start have w2: "w2 = snd (awaitSettled ?k port ?es ?sw)"
      using startBackendServer_snd [of u n port npid evs ?w1] by simp
    have a2: "actions w2 = actions w @ [Signalled (pid old), Spawned npid]"
      by (simp add: w2 awaitSettled_actions sp(1))
    from d1 startBackendServer_rest [of u n port npid evs ?w1] start
    have d2: "distinct (map fst (runningProcesses w2))" by simp
    from awaitSettled_value [of ?k port ?es ?sw] sp(2)
    have v2: "map_of (runningProcesses w2) ?k = Some \<lparr>pid = npid, killed = False\<rparr> \<or>
              map_of (runningProcesses w2) ?k = None"
      by (simp add: w2)
    have res: "snd (restartProject u n npid evs dbOk w) = w2 \<or>
               snd (restartProject u n npid evs dbOk w) = w2\<lparr>projects := markActive u n (projects w2)\<rparr>"
      using assms(1,3) Some start
      by (cases pr; cases dbOk) (simp_all add: restartProject_def Let_def)
    from res a2 d2 v2 Some show ?thesis by auto
  qed
  show "actions (snd (restartProject u n npid evs dbOk w)) =
           actions w @ [Signalled (pid old)] @
           (case pport found of Some port \<Rightarrow> [Spawned npid] | None \<Rightarrow> [])"
    by (rule all [THEN conjunct1])
  show "distinct (map fst (runningProcesses (snd (restartProject u n npid evs dbOk w))))"
    by (rule all [THEN conjunct2, THEN conjunct1])
  show "map_of (runningProcesses (snd (restartProject u n npid evs dbOk w))) ?k =
           Some \<lparr>pid = npid, killed = False\<rparr> \<or>
         map_of (runningProcesses (snd (restartProject u n npid evs dbOk w))) ?k = None"
    by (rule all [THEN conjunct2, THEN conjunct2])
qed

lemma deployDynamic_existing:
  assumes "reqName req = Some raw" and "sites w (trim raw) \<noteq> None"
  shows "actions (snd (deployDynamic Supervised req out w)) = actions w \<or>
         (\<exists>p. actions (snd (deployDynamic Supervised req out w)) = actions w @ [Signalled p])"
proof -
  obtain res l w' where t: "deployTry Supervised req out w = (res, l, w')"
    by (cases "deployTry Supervised req out w")
  with deployTry_existing [OF assms, of Supervised out] have w': "w' = w" by simp
  show ?thesis
    using t w' deployCatch_actions [of req l w]
    by (cases res) (simp_all add: deployDynamic_def)
qed

text \<open>
  C3. Two routes call \<open>startBackendServer\<close>: the restart and the deployment. In every
  state the supervised server reaches, the map holds at most one handle per key. When it
  holds a process under the caller's key: a restart of a project the caller has stored
  first sends SIGTERM to that process and deletes its handle, and only then spawns the
  new process (for a project stored without a port it spawns nothing), after which the
  key maps to the new process, or to none when a \<open>close\<close> event came in, and the keys
  are distinct as before; a restart of a project the caller has not stored answers 404
  and changes nothing; and a deployment under that name by that caller spawns nothing,
  because the project directory of a registered key exists and
  \<open>createProjectDirectory\<close> throws. So no start ever finds its key in the map.
\<close>

theorem restart_stops_before_spawn:
  assumes "reachable idLength w" and "length u = idLength"
    and "map_of (runningProcesses w) (projectKey u n) = Some old"
  shows "distinct (map fst (runningProcesses w)) \<and>
         (find (\<lambda>p. owner p = u \<and> pname p = n) (projects w) = None \<longrightarrow>
            restartProject u n npid evs dbOk w = (\<lparr>status = 404, reply = ProjectNotFound\<rparr>, w)) \<and>
         (find (\<lambda>p. owner p = u \<and> pname p = n) (projects w) = Some found \<longrightarrow>
            actions (snd (restartProject u n npid evs dbOk w)) =
              actions w @ [Signalled (pid old)] @
              (case pport found of Some port \<Rightarrow> [Spawned npid] | None \<Rightarrow> []) \<and>
            distinct (map fst (runningProcesses (snd (restartProject u n npid evs dbOk w)))) \<and>
            (map_of (runningProcesses (snd (restartProject u n npid evs dbOk w))) (projectKey u n) =
               Some \<lparr>pid = npid, killed = False\<rparr> \<or>
             map_of (runningProcesses (snd (restartProject u n npid evs dbOk w))) (projectKey u n) =
               None)) \<and>
         (reqUser req = u \<and> reqName req = Some raw \<and> trim raw = n \<longrightarrow>
            actions (snd (deployDynamic Supervised req out w)) = actions w \<or>
            (\<exists>p. actions (snd (deployDynamic Supervised req out w)) = actions w @ [Signalled p]))"
proof -
  from assms(1) have c: "consistent idLength w" by (rule reachable_consistent)
  then have d: "distinct (map fst (runningProcesses w))" by (simp add: consistent_def)
  from registered_directory [OF c assms(2,3)] have dir: "sites w n \<noteq> None" .
  have nf: "find (\<lambda>p. owner p = u \<and> pname p = n) (projects w) = None \<longrightarrow>
            restartProject u n npid evs dbOk w = (\<lparr>status = 404, reply = ProjectNotFound\<rparr>, w)"
    by (simp add: restartProject_def)
  have r: "find (\<lambda>p. owner p = u \<and> pname p = n) (projects w) = Some found \<longrightarrow>
            actions (snd (restartProject u n npid evs dbOk w)) =
              actions w @ [Signalled (pid old)] @
              (case pport found of Some port \<Rightarrow> [Spawned npid] | None \<Rightarrow> []) \<and>
            distinct (map fst (runningProcesses (snd (restartProject u n npid evs dbOk w)))) \<and>
            (map_of (runningProcesses (snd (restartProject u n npid evs dbOk w))) (projectKey u n) =
               Some \<lparr>pid = npid, killed = False\<rparr> \<or>
             map_of (runningProcesses (snd (restartProject u n npid evs dbOk w))) (projectKey u n) =
               None)" (is "?H \<longrightarrow> ?C")
  proof
    assume h: ?H
    note rp = restartProject_running [OF assms(3) d h, of npid evs dbOk]
    show ?C by (intro conjI rp(1) rp(2) rp(3))
  qed
  have e: "reqUser req = u \<and> reqName req = Some raw \<and> trim raw = n \<longrightarrow>
            actions (snd (deployDynamic Supervised req out w)) = actions w \<or>
            (\<exists>p. actions (snd (deployDynamic Supervised req out w)) = actions w @ [Signalled p])"
  proof
    assume h: "reqUser req = u \<and> reqName req = Some raw \<and> trim raw = n"
    then have nm: "reqName req = Some raw" and t: "trim raw = n" by simp_all
    from dir have s: "sites w (trim raw) \<noteq> None" unfolding t .
    show "actions (snd (deployDynamic Supervised req out w)) = actions w \<or>
            (\<exists>p. actions (snd (deployDynamic Supervised req out w)) = actions w @ [Signalled p])"
      by (rule deployDynamic_existing [OF nm s])
  qed
  show ?thesis by (intro conjI d nf r e)
qed

lemma sample_start:
  "startBackendServer ''u1'' ''app'' 3001 npid [Stdout ''listening''] w =
     (Resolved, w\<lparr>actions := actions w @ [Spawned npid] @
                      (case map_of (runningProcesses w) ''u1-app'' of
                         Some old \<Rightarrow> [Signalled (pid old)] | None \<Rightarrow> []),
                   runningProcesses :=
                     AList.update ''u1-app'' \<lparr>pid = npid, killed = False\<rparr> (runningProcesses w)\<rparr>)"
  by (simp add: startBackendServer_def spawnBackend_def projectKey_def settle_def Let_def
        isReady_def str_includes_def split: option.splits)

lemma sample_deploy:
  "deployDynamic Supervised sampleRequest sampleOutcomes sampleWorld =
     (\<lparr>status = 200,
       reply = Deployed \<lparr>owner = ''u1'', pname = ''app'', ptype = ''dynamic'',
                         pstatus = ''active'', pport = Some 3001, usesMongoDB = False\<rparr>\<rparr>,
      \<lparr>ports = newPortManager\<lparr>usedPorts := {3001}\<rparr>,
       runningProcesses = [(''u1-app'', \<lparr>pid = 42, killed = False\<rparr>)],
       actions = [Spawned 42], uploads = {},
       sites = [''app'' \<mapsto>
          [Dir ''frontend''
             [File ''package.json'' ''{}'',
              File ''.env'' (''VITE_API_URL=http://localhost:3001'' @ [CHR 0x0A] @
                            ''BACKEND_ADRESSE=http://localhost:3001'' @ [CHR 0x0A])],
           Dir ''backend'' [File ''package.json'' ''{}'']]],
       projects = [\<lparr>owner = ''u1'', pname = ''app'', ptype = ''dynamic'',
                    pstatus = ''active'', pport = Some 3001, usesMongoDB = False\<rparr>]\<rparr>)"
  by (simp add: sample_start deploy_defs sample_defs needsEnvUpdate_def Let_def)

theorem restart_stops_before_spawn_witness:
  "actions (snd (restartProject ''u1'' ''app'' 43 [Stdout ''listening''] True
                   (snd (deployDynamic Supervised sampleRequest sampleOutcomes sampleWorld)))) =
     [Spawned 42, Signalled 42, Spawned 43] \<and>
   fst (deployDynamic Supervised (sampleRequest\<lparr>reqFile := Some ''uploads/2-app.zip''\<rparr>)
          sampleOutcomes
          ((snd (deployDynamic Supervised sampleRequest sampleOutcomes sampleWorld))
             \<lparr>projects := []\<rparr>)) =
     \<lparr>status = 500, reply = DeployFailed (ProjectExists ''app'')\<rparr>"
proof -
  let ?w1 = "snd (deployDynamic Supervised sampleRequest sampleOutcomes sampleWorld)"
  let ?p = "\<lparr>owner = ''u1'', pname = ''app'', ptype = ''dynamic'',
             pstatus = ''active'', pport = Some 3001, usesMongoDB = False\<rparr>"
  have "reachable 2 sampleWorld"
    by (rule reachable.boot) (simp_all add: sampleWorld_def)
  then have reach: "reachable 2 ?w1"
    by (rule reachable.deploy) (simp add: sampleRequest_def)
  have held: "map_of (runningProcesses ?w1) (projectKey ''u1'' ''app'') =
                Some \<lparr>pid = 42, killed = False\<rparr>"
    by (simp add: sample_deploy projectKey_def)
  have found: "find (\<lambda>p. owner p = ''u1'' \<and> pname p = ''app'') (projects ?w1) = Some ?p"
    by (simp add: sample_deploy)
  have acts: "actions ?w1 = [Spawned 42]" by (simp add: sample_deploy)
  from restart_stops_before_spawn [OF reach _ held, of 43 "[Stdout ''listening'']" True ?p]
    found acts
  have "actions (snd (restartProject ''u1'' ''app'' 43 [Stdout ''listening''] True ?w1)) =
     [Spawned 42, Signalled 42, Spawned 43]"
    by simp
  moreover have "fst (deployDynamic Supervised (sampleRequest\<lparr>reqFile := Some ''uploads/2-app.zip''\<rparr>)
          sampleOutcomes (?w1\<lparr>projects := []\<rparr>)) =
     \<lparr>status = 500, reply = DeployFailed (ProjectExists ''app'')\<rparr>"
    unfolding sample_deploy
    by (simp add: deployDynamic_def deployTry_def stageExtract_def createProjectDirectory_def
          sample_defs Let_def)
  ultimately show ?thesis by simp
qed

end
